theory Spec2Isabelle
  imports Complex_Main
begin

section \<open>Single-precision floating-point numbers\<close>

text \<open>
  The notebook \<^verbatim>\<open>attention-from-scratch.ipynb\<close> computes with tensors of the library's
  default element type, the 32-bit IEEE 754 binary format.  An element is a finite
  number, one of the two infinities, or not-a-number.  A finite element carries its
  value as a real number; the two zeros of the format are identified (no computation
  of the notebook divides by a zero or takes the sign of one).
\<close>

datatype f32 = Fin real | PInf | NInf | NaN

text \<open>Rounding of a real number to the nearest integer, ties to the even one.\<close>

definition rne :: "real \<Rightarrow> int" where
  "rne y = (let f = \<lfloor>y\<rfloor>; d = y - of_int f
            in if d < 1 / 2 then f else if 1 / 2 < d then f + 1
               else if even f then f else f + 1)"

text \<open>
  The finite numbers of the format are the multiples \<open>n * 2 ^ k\<close> with \<open>\<bar>n\<bar> \<le> 2 ^ 24\<close> and
  \<open>- 149 \<le> k\<close> that are smaller than \<open>2 ^ 128\<close> in magnitude.  Around a real number \<open>x\<close>
  they are spaced by \<open>ulp x\<close>: 24 significant bits for a normal number, and the
  fixed spacing \<open>2 ^ - 149\<close> below \<open>2 ^ - 126\<close>.  Every arithmetic operation returns the
  exact result rounded to the nearest number of the format, ties to even, and
  overflows to an infinity when the rounded magnitude reaches \<open>2 ^ 128\<close>.
\<close>

definition expo :: "real \<Rightarrow> int" where
  "expo x = max \<lfloor>log 2 \<bar>x\<bar>\<rfloor> (- 126)"

definition ulp :: "real \<Rightarrow> real" where
  "ulp x = 2 powr of_int (expo x - 23)"

definition nearest :: "real \<Rightarrow> real" where
  "nearest x = of_int (rne (x / ulp x)) * ulp x"

definition huge :: real where
  "huge = 2 ^ 128"

definition rnd :: "real \<Rightarrow> f32" where
  "rnd x = (if x = 0 then Fin 0
            else if huge \<le> \<bar>nearest x\<bar> then (if 0 < x then PInf else NInf)
            else Fin (nearest x))"

text \<open>
  Negation, addition, subtraction, multiplication and division.  Not-a-number
  propagates; \<open>\<infinity> - \<infinity>\<close>, \<open>0 * \<infinity>\<close>, \<open>0 / 0\<close> and \<open>\<infinity> / \<infinity>\<close> are not-a-number.
\<close>

fun fneg :: "f32 \<Rightarrow> f32" where
  "fneg (Fin a) = Fin (- a)"
| "fneg PInf = NInf"
| "fneg NInf = PInf"
| "fneg NaN = NaN"

fun fadd :: "f32 \<Rightarrow> f32 \<Rightarrow> f32" where
  "fadd (Fin a) (Fin b) = rnd (a + b)"
| "fadd NaN _ = NaN"
| "fadd _ NaN = NaN"
| "fadd PInf NInf = NaN"
| "fadd NInf PInf = NaN"
| "fadd PInf _ = PInf"
| "fadd _ PInf = PInf"
| "fadd NInf _ = NInf"
| "fadd _ NInf = NInf"

definition fsub :: "f32 \<Rightarrow> f32 \<Rightarrow> f32" where
  "fsub a b = fadd a (fneg b)"

fun fmul :: "f32 \<Rightarrow> f32 \<Rightarrow> f32" where
  "fmul (Fin a) (Fin b) = rnd (a * b)"
| "fmul NaN _ = NaN"
| "fmul _ NaN = NaN"
| "fmul (Fin a) PInf = (if a = 0 then NaN else if 0 < a then PInf else NInf)"
| "fmul (Fin a) NInf = (if a = 0 then NaN else if 0 < a then NInf else PInf)"
| "fmul PInf (Fin b) = (if b = 0 then NaN else if 0 < b then PInf else NInf)"
| "fmul NInf (Fin b) = (if b = 0 then NaN else if 0 < b then NInf else PInf)"
| "fmul PInf PInf = PInf"
| "fmul PInf NInf = NInf"
| "fmul NInf PInf = NInf"
| "fmul NInf NInf = PInf"

fun fdiv :: "f32 \<Rightarrow> f32 \<Rightarrow> f32" where
  "fdiv (Fin a) (Fin b) =
     (if b = 0 then (if a = 0 then NaN else if 0 < a then PInf else NInf) else rnd (a / b))"
| "fdiv NaN _ = NaN"
| "fdiv _ NaN = NaN"
| "fdiv (Fin a) _ = Fin 0"
| "fdiv PInf (Fin b) = (if 0 \<le> b then PInf else NInf)"
| "fdiv NInf (Fin b) = (if 0 \<le> b then NInf else PInf)"
| "fdiv PInf PInf = NaN"
| "fdiv PInf NInf = NaN"
| "fdiv NInf PInf = NaN"
| "fdiv NInf NInf = NaN"

text \<open>
  The exponential.  The exponential of a finite number is taken to be the exact value
  rounded to the format; the statements below rest only on \<open>exp 0 = 1\<close>,
  \<open>exp (- \<infinity>) = 0\<close> and on \<open>0 \<le> exp a \<le> 1\<close> for \<open>a \<le> 0\<close>.
\<close>

fun fexp :: "f32 \<Rightarrow> f32" where
  "fexp (Fin a) = rnd (exp a)"
| "fexp PInf = PInf"
| "fexp NInf = Fin 0"
| "fexp NaN = NaN"

text \<open>The maximum of two elements, as the reductions of the library take it:
  not-a-number propagates.\<close>

fun fmax :: "f32 \<Rightarrow> f32 \<Rightarrow> f32" where
  "fmax (Fin a) (Fin b) = Fin (max a b)"
| "fmax NaN _ = NaN"
| "fmax _ NaN = NaN"
| "fmax PInf _ = PInf"
| "fmax _ PInf = PInf"
| "fmax NInf b = b"
| "fmax a NInf = a"

text \<open>
  An element is finite (\<open>is_fin\<close>); its real value is a number of the format
  (\<open>is_f32\<close>, which every result of an operation satisfies); it is both
  (\<open>finite_f32\<close>, what a tensor read from memory holds unless it is an infinity or
  not-a-number); it is a finite number between 0 and 1 (\<open>unit_val\<close>).  \<open>val\<close> reads the
  real value of a finite element.
\<close>

fun is_fin :: "f32 \<Rightarrow> bool" where
  "is_fin (Fin _) = True"
| "is_fin _ = False"

fun is_f32 :: "f32 \<Rightarrow> bool" where
  "is_f32 (Fin a) = (rnd a = Fin a)"
| "is_f32 _ = True"

definition finite_f32 :: "f32 \<Rightarrow> bool" where
  "finite_f32 e \<longleftrightarrow> is_fin e \<and> is_f32 e"

fun unit_val :: "f32 \<Rightarrow> bool" where
  "unit_val (Fin a) = (0 \<le> a \<and> a \<le> 1)"
| "unit_val _ = False"

fun val :: "f32 \<Rightarrow> real" where
  "val (Fin a) = a"
| "val _ = 0"

text \<open>A sum over a dimension accumulates in the element type, from zero, in index
  order, rounding after every addition.\<close>

definition fsum :: "f32 list \<Rightarrow> f32" where
  "fsum xs = foldl fadd (Fin 0) xs"

section \<open>Tensors of the attention notebook\<close>

text \<open>
  A rank-two tensor of shape \<open>(n, m)\<close> is a list of \<open>n\<close> rows of length \<open>m\<close>; a
  rank-three tensor of shape \<open>(B, T, C)\<close> is a list of \<open>B\<close> such matrices.

  The globals \<open>B\<close>, \<open>T\<close>, \<open>C\<close> and \<open>head_size\<close> of the notebook (fixed there to 4, 8, 2
  and 16) are parameters, and the random input \<open>x = torch.rand(B, T, C)\<close> and the
  randomly initialised weights of the three linear layers are arbitrary tensors of
  the right shape.  The tensor library raises on operands whose shapes do not fit;
  the shape predicates below are the hypotheses under which no such error occurs.
\<close>

type_synonym matrix = "f32 list list"
type_synonym tensor3 = "f32 list list list"

definition shape2 :: "nat \<Rightarrow> nat \<Rightarrow> 'a list list \<Rightarrow> bool" where
  "shape2 n m a \<longleftrightarrow> length a = n \<and> list_all (\<lambda>row. length row = m) a"

definition shape3 :: "nat \<Rightarrow> nat \<Rightarrow> nat \<Rightarrow> 'a list list list \<Rightarrow> bool" where
  "shape3 B T C x \<longleftrightarrow> length x = B \<and> list_all (shape2 T C) x"

text \<open>\<^verbatim>\<open>torch.ones(n, m)\<close>, \<^verbatim>\<open>torch.zeros(n, m)\<close> and \<^verbatim>\<open>torch.zeros(B, T, C)\<close>.\<close>

definition ones :: "nat \<Rightarrow> nat \<Rightarrow> matrix" where
  "ones n m = replicate n (replicate m (Fin 1))"

definition zeros :: "nat \<Rightarrow> nat \<Rightarrow> matrix" where
  "zeros n m = replicate n (replicate m (Fin 0))"

definition zeros3 :: "nat \<Rightarrow> nat \<Rightarrow> nat \<Rightarrow> tensor3" where
  "zeros3 B T C = replicate B (replicate T (replicate C (Fin 0)))"

text \<open>\<^verbatim>\<open>torch.tril(m)\<close>: the entries on and below the diagonal are kept, the others
  are set to zero.\<close>

definition tril :: "matrix \<Rightarrow> matrix" where
  "tril m = map (\<lambda>i. map (\<lambda>j. if j \<le> i then m ! i ! j else Fin 0) [0..<length (m ! i)])
                [0..<length m]"

text \<open>The number of columns of a matrix and its \<open>j\<close>-th column.\<close>

definition ncols :: "'a list list \<Rightarrow> nat" where
  "ncols m = (case m of [] \<Rightarrow> 0 | row # _ \<Rightarrow> length row)"

definition col :: "nat \<Rightarrow> matrix \<Rightarrow> f32 list" where
  "col j m = map (\<lambda>row. row ! j) m"

text \<open>The inner product of a matrix product: every product is rounded, and the
  products are accumulated in index order.\<close>

definition dot :: "f32 list \<Rightarrow> f32 list \<Rightarrow> f32" where
  "dot u v = fsum (map2 fmul u v)"

text \<open>\<^verbatim>\<open>a @ b\<close> on two matrices, on a matrix broadcast over the batch dimension of a
  rank-three tensor (\<^verbatim>\<open>wei @ x\<close> with \<open>wei\<close> of shape \<open>(T, T)\<close>), and batch by batch on
  two rank-three tensors.\<close>

definition matmul :: "matrix \<Rightarrow> matrix \<Rightarrow> matrix" where
  "matmul a b = map (\<lambda>row. map (\<lambda>j. dot row (col j b)) [0..<ncols b]) a"

definition matmul_bcast :: "matrix \<Rightarrow> tensor3 \<Rightarrow> tensor3" where
  "matmul_bcast w x = map (matmul w) x"

definition bmm :: "tensor3 \<Rightarrow> tensor3 \<Rightarrow> tensor3" where
  "bmm a b = map2 matmul a b"

section \<open>Version 1: nested loops\<close>

text \<open>\<^verbatim>\<open>torch.mean(xprev, dim=0)\<close>: channel by channel, the sum over the rows divided
  by the number of rows, both in the element type.\<close>

definition mean_dim0 :: "matrix \<Rightarrow> f32 list" where
  "mean_dim0 m = map (\<lambda>c. fdiv (fsum (col c m)) (rnd (real (length m)))) [0..<ncols m]"

text \<open>The assignment \<^verbatim>\<open>xbow1[b, t] = v\<close>.\<close>

definition set_row :: "tensor3 \<Rightarrow> nat \<Rightarrow> nat \<Rightarrow> f32 list \<Rightarrow> tensor3" where
  "set_row a b t v = a[b := (a ! b)[t := v]]"

text \<open>The two loops of the cell, over \<^verbatim>\<open>range(B)\<close> and \<^verbatim>\<open>range(T)\<close>, update the
  tensor allocated by \<^verbatim>\<open>torch.zeros((B, T, C))\<close>; \<^verbatim>\<open>x[b, :t+1]\<close> is the prefix of
  length \<open>t + 1\<close> of batch element \<open>b\<close>.\<close>

definition xbow1 :: "nat \<Rightarrow> nat \<Rightarrow> nat \<Rightarrow> tensor3 \<Rightarrow> tensor3" where
  "xbow1 B T C x =
     fold (\<lambda>b acc.
             fold (\<lambda>t acc.
                     let xprev = take (t + 1) (x ! b);
                         xprev_mean = mean_dim0 xprev
                     in set_row acc b t xprev_mean)
                  [0..<T] acc)
          [0..<B] (zeros3 B T C)"

section \<open>Version 2: normalised triangular matrix\<close>

text \<open>\<^verbatim>\<open>wei.sum(dim=1, keepdim=True)\<close> is a column of shape \<open>(T, 1)\<close>, and the division
  \<^verbatim>\<open>wei / wei.sum(dim=1, keepdim=True)\<close> broadcasts it over the columns of \<open>wei\<close>.\<close>

definition sum_dim1_keepdim :: "matrix \<Rightarrow> matrix" where
  "sum_dim1_keepdim m = map (\<lambda>row. [fsum row]) m"

definition div_bcast :: "matrix \<Rightarrow> matrix \<Rightarrow> matrix" where
  "div_bcast w s = map2 (\<lambda>row srow. map (\<lambda>e. fdiv e (srow ! 0)) row) w s"

definition wei2 :: "nat \<Rightarrow> matrix" where
  "wei2 T = (let wei = tril (ones T T) in div_bcast wei (sum_dim1_keepdim wei))"

definition xbow2 :: "nat \<Rightarrow> tensor3 \<Rightarrow> tensor3" where
  "xbow2 T x = matmul_bcast (wei2 T) x"

section \<open>Version 3: masked softmax\<close>

text \<open>\<^verbatim>\<open>tril == 0\<close> and \<^verbatim>\<open>wei.masked_fill(msk, v)\<close>.\<close>

definition eq_zero :: "matrix \<Rightarrow> bool list list" where
  "eq_zero m = map (map (\<lambda>e. e = Fin 0)) m"

definition masked_fill :: "matrix \<Rightarrow> bool list list \<Rightarrow> f32 \<Rightarrow> matrix" where
  "masked_fill w msk v =
     map2 (\<lambda>row mrow. map2 (\<lambda>e hit. if hit then v else e) row mrow) w msk"

text \<open>The softmax over the last dimension, as the library computes it on a row: the
  maximum of the row is subtracted from every entry, the exponentials are summed,
  and every exponential is multiplied by the reciprocal of the sum.\<close>

definition softmax_row :: "f32 list \<Rightarrow> f32 list" where
  "softmax_row row =
     (let m = foldl fmax NInf row;
          e = map (\<lambda>z. fexp (fsub z m)) row;
          r = fdiv (Fin 1) (fsum e)
      in map (\<lambda>y. fmul y r) e)"

definition softmax :: "matrix \<Rightarrow> matrix" where
  "softmax w = map softmax_row w"

definition wei3 :: "nat \<Rightarrow> matrix" where
  "wei3 T =
     (let tril = tril (ones T T);
          wei = zeros T T;
          wei = masked_fill wei (eq_zero tril) NInf
      in softmax wei)"

definition xbow3 :: "nat \<Rightarrow> tensor3 \<Rightarrow> tensor3" where
  "xbow3 T x = matmul_bcast (wei3 T) x"

section \<open>Version 4: a single head of self-attention\<close>

text \<open>\<^verbatim>\<open>nn.Linear(C, head_size, bias=False)\<close> holds a weight matrix of shape
  \<open>(head_size, C)\<close> and maps every token \<open>tok\<close> to the vector of its inner products
  with the rows of the matrix.\<close>

definition nn_linear :: "matrix \<Rightarrow> tensor3 \<Rightarrow> tensor3" where
  "nn_linear W x = map (map (\<lambda>tok. map (\<lambda>wrow. dot tok wrow) W)) x"

text \<open>\<^verbatim>\<open>k.transpose(-1, -2)\<close> swaps the last two dimensions.\<close>

definition transpose_m :: "matrix \<Rightarrow> matrix" where
  "transpose_m m = map (\<lambda>j. col j m) [0..<ncols m]"

definition transpose_last :: "tensor3 \<Rightarrow> tensor3" where
  "transpose_last k = map transpose_m k"

text \<open>The product of a tensor with a scalar, and the scalar \<^verbatim>\<open>head_size**-0.5\<close> as an
  element; for the notebook's \<open>head_size = 16\<close> it is exactly \<open>1 / 4\<close>.\<close>

definition scale3 :: "tensor3 \<Rightarrow> f32 \<Rightarrow> tensor3" where
  "scale3 a c = map (map (map (\<lambda>e. fmul e c))) a"

definition scale_factor :: "nat \<Rightarrow> f32" where
  "scale_factor head_size = rnd (real head_size powr (- 0.5))"

text \<open>The scores of the head: \<^verbatim>\<open>q @ k.transpose(-1, -2) * head_size**-0.5\<close> parses as
  \<open>(q @ k\<^sup>T) * (head_size ** - 0.5)\<close>.\<close>

definition attention_scores :: "matrix \<Rightarrow> matrix \<Rightarrow> nat \<Rightarrow> tensor3 \<Rightarrow> tensor3" where
  "attention_scores Wq Wk head_size x =
     (let q = nn_linear Wq x;
          k = nn_linear Wk x
      in scale3 (bmm q (transpose_last k)) (scale_factor head_size))"

text \<open>The weights of the head: the scores, then \<^verbatim>\<open>masked_fill(tril == 0, float('-inf'))\<close>
  on every batch element, then \<^verbatim>\<open>F.softmax(wei, dim=-1)\<close>.\<close>

definition attention_wei :: "matrix \<Rightarrow> matrix \<Rightarrow> nat \<Rightarrow> nat \<Rightarrow> tensor3 \<Rightarrow> tensor3" where
  "attention_wei Wq Wk head_size T x =
     (let wei = attention_scores Wq Wk head_size x;
          tril = tril (ones T T);
          wei = map (\<lambda>w. masked_fill w (eq_zero tril) NInf) wei
      in map softmax wei)"

text \<open>\<^verbatim>\<open>out = wei @ v\<close>.\<close>

definition attention_out ::
  "matrix \<Rightarrow> matrix \<Rightarrow> matrix \<Rightarrow> nat \<Rightarrow> nat \<Rightarrow> tensor3 \<Rightarrow> tensor3" where
  "attention_out Wq Wk Wv head_size T x =
     (let v = nn_linear Wv x;
          wei = attention_wei Wq Wk head_size T x
      in bmm wei v)"

section \<open>Other orders of scaling, masking and softmax\<close>

text \<open>
  The description of the head contrasts the order of the cell with other orders of
  the same three steps.  These two are not computed by the notebook; they are the
  cell with the scaling moved after the masking, and after the softmax.
\<close>

definition mask_then_scale_wei ::
  "matrix \<Rightarrow> matrix \<Rightarrow> nat \<Rightarrow> nat \<Rightarrow> tensor3 \<Rightarrow> tensor3" where
  "mask_then_scale_wei Wq Wk head_size T x =
     (let q = nn_linear Wq x;
          k = nn_linear Wk x;
          wei = bmm q (transpose_last k);
          tril = tril (ones T T);
          wei = map (\<lambda>w. masked_fill w (eq_zero tril) NInf) wei;
          wei = scale3 wei (scale_factor head_size)
      in map softmax wei)"

definition softmax_then_scale_wei ::
  "matrix \<Rightarrow> matrix \<Rightarrow> nat \<Rightarrow> nat \<Rightarrow> tensor3 \<Rightarrow> tensor3" where
  "softmax_then_scale_wei Wq Wk head_size T x =
     (let q = nn_linear Wq x;
          k = nn_linear Wk x;
          wei = bmm q (transpose_last k);
          tril = tril (ones T T);
          wei = map (\<lambda>w. masked_fill w (eq_zero tril) NInf) wei;
          wei = map softmax wei
      in scale3 wei (scale_factor head_size))"

section \<open>Auxiliary notions\<close>

text \<open>The raw and the scaled affinity of position \<open>i\<close> to position \<open>j\<close> of one batch
  element \<open>xb\<close>, entry \<open>(i, j)\<close> of \<open>q @ k\<^sup>T\<close> and of the scores.\<close>

definition raw_score :: "matrix \<Rightarrow> matrix \<Rightarrow> matrix \<Rightarrow> nat \<Rightarrow> nat \<Rightarrow> f32" where
  "raw_score Wq Wk xb i j = dot (map (dot (xb ! i)) Wq) (map (dot (xb ! j)) Wk)"

definition score :: "matrix \<Rightarrow> matrix \<Rightarrow> nat \<Rightarrow> matrix \<Rightarrow> nat \<Rightarrow> nat \<Rightarrow> f32" where
  "score Wq Wk head_size xb i j = fmul (raw_score Wq Wk xb i j) (scale_factor head_size)"

text \<open>An accumulated sum of exponentials that has stayed above \<open>lo\<close> or overflowed.\<close>

definition sum_ok :: "real \<Rightarrow> f32 \<Rightarrow> bool" where
  "sum_ok lo s \<longleftrightarrow> s = PInf \<or> (\<exists>r. s = Fin r \<and> lo \<le> r)"

section \<open>Rounding\<close>

lemma rne_of_int: "rne (of_int z) = z"
  by (simp add: rne_def)

lemma rne_ge: "of_int m \<le> y \<Longrightarrow> m \<le> rne y"
proof -
  assume "of_int m \<le> y"
  then have "m \<le> \<lfloor>y\<rfloor>" by (simp add: le_floor_iff)
  moreover have "\<lfloor>y\<rfloor> \<le> rne y" by (simp add: rne_def Let_def)
  ultimately show ?thesis by simp
qed

lemma rne_le: "y \<le> of_int m \<Longrightarrow> rne y \<le> m"
proof -
  assume a: "y \<le> of_int m"
  show ?thesis
  proof (cases "y = of_int m")
    case True then show ?thesis by (simp add: rne_of_int)
  next
    case False
    then have "y < of_int m" using a by simp
    then have "\<lfloor>y\<rfloor> < m" by (simp add: floor_less_iff)
    moreover have "rne y \<le> \<lfloor>y\<rfloor> + 1" by (simp add: rne_def Let_def)
    ultimately show ?thesis by simp
  qed
qed

lemma ulp_pos: "0 < ulp x"
  by (simp add: ulp_def)

lemma expo_ge: "- 126 \<le> expo x"
  by (simp add: expo_def)

lemma abs_less_expo: 
  assumes "x \<noteq> 0"
  shows "\<bar>x\<bar> < 2 powr of_int (expo x + 1)"
proof -
  have "\<bar>x\<bar> < 2 powr of_int (\<lfloor>log 2 \<bar>x\<bar>\<rfloor> + 1)"
    using assms floor_log_eq_powr_iff[of "\<bar>x\<bar>" 2 "\<lfloor>log 2 \<bar>x\<bar>\<rfloor>"] by simp
  also have "\<dots> \<le> 2 powr of_int (expo x + 1)"
    by (simp add: expo_def)
  finally show ?thesis .
qed

lemma expo_le_abs:
  assumes "x \<noteq> 0" and "- 126 < expo x"
  shows "2 powr of_int (expo x) \<le> \<bar>x\<bar>"
proof -
  have "expo x = \<lfloor>log 2 \<bar>x\<bar>\<rfloor>" using assms(2) by (simp add: expo_def max_def split: if_splits)
  then show ?thesis
    using assms(1) floor_log_eq_powr_iff[of "\<bar>x\<bar>" 2 "\<lfloor>log 2 \<bar>x\<bar>\<rfloor>"] by simp
qed

lemma pow_split_hi: "(2::real) powr of_int (e + 1) = 2 ^ 24 * 2 powr of_int (e - 23)"
proof -
  have "(2::real) powr (of_int (e - 23) + 24) = 2 powr of_int (e - 23) * 2 powr 24"
    by (rule powr_add)
  moreover have "real_of_int (e - 23) + 24 = of_int (e + 1)" by simp
  ultimately show ?thesis by (simp only: powr_numeral) (simp only: mult.commute)
qed

lemma pow_split_lo: "(2::real) powr of_int e = 2 ^ 23 * 2 powr of_int (e - 23)"
proof -
  have "(2::real) powr (of_int (e - 23) + 23) = 2 powr of_int (e - 23) * 2 powr 23"
    by (rule powr_add)
  moreover have "real_of_int (e - 23) + 23 = of_int e" by simp
  ultimately show ?thesis by (simp only: powr_numeral) (simp only: mult.commute)
qed

lemma quot_less: 
  assumes "x \<noteq> 0"
  shows "\<bar>x / ulp x\<bar> < 2 ^ 24"
proof -
  have "\<bar>x\<bar> < 2 ^ 24 * ulp x"
    using abs_less_expo[OF assms] by (simp only: pow_split_hi ulp_def)
  then show ?thesis using ulp_pos[of x] by (simp add: pos_divide_less_eq abs_of_pos)
qed

lemma quot_ge:
  assumes "x \<noteq> 0" and "- 126 < expo x"
  shows "2 ^ 23 \<le> \<bar>x / ulp x\<bar>"
proof -
  have "2 ^ 23 * ulp x \<le> \<bar>x\<bar>"
    using expo_le_abs[OF assms] by (simp only: pow_split_lo[of "expo x"] ulp_def)
  then show ?thesis using ulp_pos[of x] by (simp add: pos_le_divide_eq abs_of_pos)
qed

lemma rne_abs_le: "\<bar>y\<bar> \<le> of_int m \<Longrightarrow> \<bar>rne y\<bar> \<le> m"
  using rne_le[of y m] rne_ge[of "- m" y] by (simp add: abs_le_iff)

lemma rnd_of_quot_int:
  assumes "x \<noteq> 0" and "x / ulp x = of_int z" and "\<bar>x\<bar> < huge"
  shows "rnd x = Fin x"
proof -
  have "of_int z * ulp x = x"
    using assms(2) ulp_pos[of x] by (metis less_irrefl nonzero_divide_eq_eq)
  then have "nearest x = x"
    by (simp add: nearest_def assms(2) rne_of_int)
  then show ?thesis
    using assms(1,3) by (simp add: rnd_def)
qed

lemma rnd_grid:
  fixes n k :: int
  assumes n: "\<bar>n\<bar> \<le> 2 ^ 24" and k: "- 149 \<le> k"
    and lt: "\<bar>of_int n * 2 powr of_int k\<bar> < huge"
  shows "rnd (of_int n * 2 powr of_int k) = Fin (of_int n * 2 powr of_int k)"
proof (cases "n = 0")
  case True
  then show ?thesis by (simp add: rnd_def)
next
  case False
  define x :: real where "x = of_int n * 2 powr of_int k"
  have x0: "x \<noteq> 0" using False by (simp add: x_def)
  define d where "d = expo x - 23 - k"
  have q: "x / ulp x = of_int n * 2 powr of_int (- d)"
  proof -
    have "2 powr of_int k / ulp x = (2::real) powr (of_int k - of_int (expo x - 23))"
      unfolding ulp_def by (rule powr_diff[symmetric])
    also have "of_int k - real_of_int (expo x - 23) = of_int (- d)"
      by (simp add: d_def)
    finally have "2 powr of_int k / ulp x = (2::real) powr of_int (- d)" .
    moreover have "x / ulp x = of_int n * (2 powr of_int k / ulp x)"
      by (simp add: x_def)
    ultimately show ?thesis by (simp only:)
  qed
  have "\<exists>z. x / ulp x = of_int z"
  proof (cases "d \<le> 0")
    case True
    then have "(2::real) powr of_int (- d) = of_int (2 ^ nat (- d))"
      using powr_real_of_int[of 2 "- d"] by simp
    then have "x / ulp x = of_int (n * 2 ^ nat (- d))"
      using q by simp
    then show ?thesis by blast
  next
    case dpos: False
    then have e: "- 126 < expo x" using k by (simp add: d_def)
    have "(2::real) powr of_int (- d) \<le> 2 powr (- 1)"
      using dpos by (intro powr_mono) simp_all
    then have p: "(2::real) powr of_int (- d) \<le> 1 / 2"
      by (simp add: powr_minus_divide)
    have "2 ^ 23 \<le> \<bar>x / ulp x\<bar>" using x0 e by (rule quot_ge)
    also have "\<bar>x / ulp x\<bar> = \<bar>real_of_int n\<bar> * 2 powr of_int (- d)"
      by (simp add: q abs_mult)
    finally have ge: "2 ^ 23 \<le> \<bar>real_of_int n\<bar> * 2 powr of_int (- d)" .
    have nn: "\<bar>real_of_int n\<bar> \<le> 2 ^ 24"
      using n by (metis of_int_abs of_int_le_iff of_int_numeral of_int_power)
    have d1: "d = 1"
    proof (rule ccontr)
      assume "d \<noteq> 1"
      then have "2 \<le> d" using dpos by simp
      then have "(2::real) powr of_int (- d) \<le> 2 powr (- 2)"
        by (intro powr_mono) simp_all
      then have "(2::real) powr of_int (- d) \<le> 1 / 4"
        by (simp add: powr_minus_divide)
      then have "\<bar>real_of_int n\<bar> * 2 powr of_int (- d) \<le> 2 ^ 24 * (1 / 4)"
        using nn by (intro mult_mono) simp_all
      with ge show False by simp
    qed
    then have half: "(2::real) powr of_int (- d) = 1 / 2"
      by (simp add: powr_minus_divide)
    from ge[unfolded half] have "2 ^ 24 \<le> \<bar>real_of_int n\<bar>" by simp
    with nn have "\<bar>real_of_int n\<bar> = 2 ^ 24" by simp
    then have "real_of_int n = 2 ^ 24 \<or> real_of_int n = - (2 ^ 24)"
      by (simp add: abs_if split: if_splits)
    then have "x / ulp x = of_int (2 ^ 23) \<or> x / ulp x = of_int (- (2 ^ 23))"
      unfolding q half by auto
    then show ?thesis by blast
  qed
  then obtain z where "x / ulp x = of_int z" ..
  from rnd_of_quot_int[OF x0 this] lt show ?thesis by (simp add: x_def)
qed

lemma rnd_form:
  assumes "rnd x = Fin y"
  shows "\<exists>n k. \<bar>n\<bar> \<le> 2 ^ 24 \<and> - 149 \<le> k \<and> y = of_int n * 2 powr of_int k \<and> \<bar>y\<bar> < huge"
proof (cases "x = 0")
  case True
  then have "y = 0" using assms by (simp add: rnd_def)
  then show ?thesis by (intro exI[of _ 0] exI[of _ 0]) (simp add: huge_def)
next
  case False
  let ?n = "rne (x / ulp x)"
  have y: "y = of_int ?n * ulp x" and b: "\<bar>y\<bar> < huge"
    using assms False by (auto simp: rnd_def nearest_def split: if_splits)
  have "\<bar>x / ulp x\<bar> \<le> of_int (2 ^ 24)"
    using quot_less[OF False] by simp
  then have "\<bar>?n\<bar> \<le> 2 ^ 24" by (rule rne_abs_le)
  moreover have "- 149 \<le> expo x - 23" using expo_ge[of x] by simp
  ultimately show ?thesis
    using y b unfolding ulp_def by blast
qed

lemma rnd_idem: "rnd x = Fin y \<Longrightarrow> rnd y = Fin y"
  using rnd_form[of x y] rnd_grid by blast

lemma rnd_int:
  assumes "\<bar>n\<bar> \<le> 2 ^ 24"
  shows "rnd (of_int n) = Fin (of_int n)"
proof -
  have "\<bar>real_of_int n\<bar> \<le> 2 ^ 24"
    using assms by (metis of_int_abs of_int_le_iff of_int_numeral of_int_power)
  then have "\<bar>real_of_int n\<bar> < huge" by (simp add: huge_def)
  then show ?thesis using rnd_grid[of n 0] assms by simp
qed

lemma rnd_nat: "n \<le> 2 ^ 24 \<Longrightarrow> rnd (real n) = Fin (real n)"
  using rnd_int[of "int n"] by simp

lemma rnd_alt:
  assumes "x \<noteq> 0"
  shows "rnd x = (if huge \<le> \<bar>nearest x\<bar> then (if 0 < x then PInf else NInf)
                  else Fin (nearest x))"
  using assms by (simp add: rnd_def)

lemma huge_pos: "1 < huge"
  by (simp add: huge_def)

lemma rnd_nonneg:
  assumes "0 \<le> x"
  shows "rnd x = PInf \<or> (\<exists>r. rnd x = Fin r \<and> 0 \<le> r)"
proof (cases "x = 0")
  case True
  then show ?thesis by (simp add: rnd_def)
next
  case False
  then have "0 \<le> x / ulp x" using assms ulp_pos[of x] by simp
  then have "0 \<le> rne (x / ulp x)" using rne_ge[of 0] by simp
  then have "0 \<le> nearest x" using ulp_pos[of x] by (simp add: nearest_def)
  then show ?thesis using False assms by (simp add: rnd_alt)
qed

lemma rnd_ge1:
  assumes "1 \<le> x"
  shows "rnd x = PInf \<or> (\<exists>r. rnd x = Fin r \<and> 1 \<le> r)"
proof -
  have x0: "x \<noteq> 0" and xpos: "0 < x" using assms by simp_all
  have "0 \<le> log 2 \<bar>x\<bar>" using assms by simp
  then have e0: "0 \<le> expo x" by (simp add: expo_def)
  then have "2 ^ 23 \<le> \<bar>x / ulp x\<bar>" using x0 by (intro quot_ge) simp_all
  then have "of_int (2 ^ 23) \<le> x / ulp x" using xpos ulp_pos[of x] by simp
  then have "2 ^ 23 \<le> rne (x / ulp x)" by (rule rne_ge)
  then have "(2::real) ^ 23 \<le> of_int (rne (x / ulp x))" 
    by (metis of_int_le_iff of_int_numeral of_int_power)
  then have "2 ^ 23 * ulp x \<le> nearest x"
    using ulp_pos[of x] by (simp add: nearest_def)
  moreover have "2 ^ 23 * ulp x = 2 powr of_int (expo x)"
    unfolding ulp_def by (rule pow_split_lo[symmetric])
  moreover have "(2::real) powr 0 \<le> 2 powr of_int (expo x)"
    using e0 by (intro powr_mono) simp_all
  ultimately have "1 \<le> nearest x" by simp
  then show ?thesis using xpos x0 by (simp add: rnd_alt)
qed

lemma rnd_one: "rnd 1 = Fin 1"
  using rnd_nat[of 1] by simp

lemma rnd_unit:
  assumes "0 \<le> x" and "x \<le> 1"
  shows "\<exists>r. rnd x = Fin r \<and> 0 \<le> r \<and> r \<le> 1"
proof (cases "x = 0 \<or> x = 1")
  case True
  then show ?thesis using rnd_one by (auto simp: rnd_def)
next
  case False
  then have x0: "x \<noteq> 0" and xpos: "0 < x" and x1: "x < 1" using assms by simp_all
  have "log 2 \<bar>x\<bar> < 0" using xpos x1 by simp
  then have "\<lfloor>log 2 \<bar>x\<bar>\<rfloor> < 0" by (simp add: floor_less_iff)
  then have e: "expo x + 1 \<le> 0" unfolding expo_def by linarith
  have "\<bar>x / ulp x\<bar> < 2 ^ 24" using x0 by (rule quot_less)
  then have "x / ulp x \<le> 2 ^ 24" by linarith
  then have "x / ulp x \<le> of_int (2 ^ 24)" by simp
  then have "rne (x / ulp x) \<le> 2 ^ 24" by (rule rne_le)
  then have "of_int (rne (x / ulp x)) \<le> (2::real) ^ 24"
    by (metis of_int_le_iff of_int_numeral of_int_power)
  then have "nearest x \<le> 2 ^ 24 * ulp x"
    using ulp_pos[of x] by (simp add: nearest_def)
  moreover have "2 ^ 24 * ulp x = 2 powr of_int (expo x + 1)"
    unfolding ulp_def by (rule pow_split_hi[symmetric])
  moreover have "(2::real) powr of_int (expo x + 1) \<le> 2 powr 0"
    using e by (intro powr_mono) simp_all
  ultimately have le1: "nearest x \<le> 1" by simp
  have "0 \<le> rne (x / ulp x)" using rne_ge[of 0 "x / ulp x"] xpos ulp_pos[of x] by simp
  then have ge0: "0 \<le> nearest x" using ulp_pos[of x] by (simp add: nearest_def)
  have "\<not> huge \<le> \<bar>nearest x\<bar>" using le1 ge0 huge_pos by simp
  then show ?thesis using x0 le1 ge0 by (simp add: rnd_alt)
qed

lemma expo_eqI:
  assumes "x \<noteq> 0" and "2 powr of_int e \<le> \<bar>x\<bar>" and "\<bar>x\<bar> < 2 powr of_int (e + 1)"
    and "- 126 \<le> e"
  shows "expo x = e"
proof -
  have "\<lfloor>log 2 \<bar>x\<bar>\<rfloor> = e"
    using assms(1-3) floor_log_eq_powr_iff[of "\<bar>x\<bar>" 2 e] by simp
  then show ?thesis using assms(4) by (simp add: expo_def)
qed

lemma rnd_third: "rnd (1 / 3) = Fin (11184811 / 33554432)"
proof -
  have e: "expo (1 / 3) = - 2"
    by (rule expo_eqI) (simp_all add: powr_minus_divide)
  have u: "ulp (1 / 3) = 1 / 33554432"
    by (simp add: ulp_def e powr_minus_divide)
  have "(1 / 3) / ulp (1 / 3) = (33554432 / 3 :: real)" by (simp add: u)
  moreover have "rne (33554432 / 3) = 11184811"
    by (simp add: rne_def Let_def)
  ultimately have "nearest (1 / 3) = 11184811 / 33554432"
    by (simp add: nearest_def u)
  then show ?thesis
    by (simp add: rnd_def huge_def)
qed

lemma rnd_huge: "rnd huge = PInf"
proof -
  have h: "huge = 2 powr of_int 128"
    using powr_realpow[of 2 128] by (simp add: huge_def)
  have e: "expo huge = 128"
  proof (rule expo_eqI)
    show "huge \<noteq> 0" using huge_pos by simp
    show "2 powr of_int 128 \<le> \<bar>huge\<bar>" using h by simp
    have "(2::real) powr of_int 128 < 2 powr of_int (128 + 1)"
      by (intro powr_less_mono) simp_all
    then show "\<bar>huge\<bar> < 2 powr of_int (128 + 1)" using h by simp
  qed simp
  have "huge = 2 ^ 23 * ulp huge"
    unfolding ulp_def e using pow_split_lo[of 128] h by simp
  then have "huge / ulp huge = of_int (2 ^ 23)" "of_int (2 ^ 23) * ulp huge = huge"
    using ulp_pos[of huge] by (simp_all add: field_simps)
  then have "nearest huge = huge" 
    unfolding nearest_def by (simp only: rne_of_int)
  then show ?thesis
    using huge_pos by (simp add: rnd_def)
qed

lemma rnd_pow2:
  assumes "- 149 \<le> k" and "k \<le> 127"
  shows "rnd (2 powr of_int k) = Fin (2 powr of_int k)"
proof -
  have "(2::real) powr of_int k \<le> 2 powr 127"
    using assms by (intro powr_mono) simp_all
  then have "\<bar>of_int 1 * 2 powr of_int k\<bar> < huge" by (simp add: huge_def)
  then show ?thesis using rnd_grid[of 1 k] assms by simp
qed

lemma rnd_simps:
  "rnd 2 = Fin 2" "rnd 4 = Fin 4" "rnd (1 / 2) = Fin (1 / 2)"
  "rnd (1 / 4) = Fin (1 / 4)" "rnd (2 ^ 126) = Fin (2 ^ 126)" "rnd (2 ^ 127) = Fin (2 ^ 127)"
  using rnd_nat[of 2] rnd_nat[of 4] rnd_pow2[of "- 1"] rnd_pow2[of "- 2"]
    rnd_pow2[of 126] rnd_pow2[of 127] powr_realpow[of 2 126] powr_realpow[of 2 127]
  by (simp_all add: powr_minus_divide)

section \<open>Shapes, loops and products\<close>

lemma shape2_nth: "shape2 n m a \<Longrightarrow> i < n \<Longrightarrow> length (a ! i) = m"
  by (simp add: shape2_def list_all_length)

lemma shape3_nth: "shape3 B T C x \<Longrightarrow> b < B \<Longrightarrow> shape2 T C (x ! b)"
  by (simp add: shape3_def list_all_length)


lemma ncols_shape2: "shape2 n m a \<Longrightarrow> 0 < n \<Longrightarrow> ncols a = m"
  by (cases a) (simp_all add: shape2_def ncols_def)

lemma length_matmul: "length (matmul a b) = length a"
  by (simp add: matmul_def)

lemma matmul_row:
  "i < length a \<Longrightarrow> matmul a b ! i = map (\<lambda>j. dot (a ! i) (col j b)) [0..<ncols b]"
  by (simp add: matmul_def)

lemma map_over_indices: "map (\<lambda>c. f (W ! c)) [0..<length W] = map f W"
  by (intro nth_equalityI) simp_all

lemma length_tril_ones: "length (tril (ones T T)) = T"
  by (simp add: tril_def ones_def)

lemma tril_ones_row:
  "i < T \<Longrightarrow> tril (ones T T) ! i = map (\<lambda>j. if j \<le> i then Fin 1 else Fin 0) [0..<T]"
  by (simp add: tril_def ones_def)

lemma shape2_tril_ones: "shape2 T T (tril (ones T T))"
  by (simp add: shape2_def list_all_length length_tril_ones tril_ones_row)

lemma eq_zero_tril_row:
  "i < T \<Longrightarrow> eq_zero (tril (ones T T)) ! i = map (\<lambda>j. i < j) [0..<T]"
  by (auto simp: eq_zero_def length_tril_ones tril_ones_row)

lemma length_eq_zero_tril: "length (eq_zero (tril (ones T T))) = T"
  by (simp add: eq_zero_def length_tril_ones)

lemma masked_fill_row:
  "i < length w \<Longrightarrow> i < length m \<Longrightarrow>
   masked_fill w m v ! i = map2 (\<lambda>e hit. if hit then v else e) (w ! i) (m ! i)"
  by (simp add: masked_fill_def)

lemma causal_masked_row:
  assumes "i < T" and "length w = T" and "length (w ! i) = T"
  shows "masked_fill w (eq_zero (tril (ones T T))) NInf ! i
         = map (\<lambda>j. if j \<le> i then w ! i ! j else NInf) [0..<T]"
  using assms
  by (intro nth_equalityI)
     (auto simp: masked_fill_row length_eq_zero_tril eq_zero_tril_row)

lemma length_causal_masked:
  "length w = T \<Longrightarrow> length (masked_fill w (eq_zero (tril (ones T T))) NInf) = T"
  by (simp add: masked_fill_def length_eq_zero_tril)

lemma inner_loop:
  assumes "b < length acc" and "n \<le> length (acc ! b)"
  shows "fold (\<lambda>t acc. set_row acc b t (g t)) [0..<n] acc
         = acc[b := map g [0..<n] @ drop n (acc ! b)]"
  using assms
proof (induction n)
  case 0
  then show ?case by simp
next
  case (Suc n)
  have "(map g [0..<n] @ drop n (acc ! b))[n := g n] = map g [0..<Suc n] @ drop (Suc n) (acc ! b)"
    using Suc.prems by (simp add: list_update_append upd_conv_take_nth_drop)
  with Suc show ?case
    by (simp add: set_row_def)
qed

lemma outer_loop:
  assumes "n \<le> length acc" and "\<forall>b<length acc. length (acc ! b) = T"
  shows "fold (\<lambda>b acc. fold (\<lambda>t acc. set_row acc b t (g b t)) [0..<T] acc) [0..<n] acc
         = map (\<lambda>b. map (g b) [0..<T]) [0..<n] @ drop n acc"
  using assms
proof (induction n)
  case 0
  then show ?case by simp
next
  case (Suc n)
  let ?mid = "map (\<lambda>b. map (g b) [0..<T]) [0..<n] @ drop n acc"
  have mid: "n < length ?mid" "?mid ! n = acc ! n" "length (?mid ! n) = T"
    using Suc.prems by (simp_all add: nth_append)
  have "fold (\<lambda>t acc. set_row acc n t (g n t)) [0..<T] ?mid = ?mid[n := map (g n) [0..<T]]"
    using mid inner_loop[of n ?mid T "g n"] by simp
  also have "\<dots> = map (\<lambda>b. map (g b) [0..<T]) [0..<Suc n] @ drop (Suc n) acc"
    using Suc.prems by (simp add: list_update_append upd_conv_take_nth_drop)
  finally show ?case using Suc by simp
qed

lemma xbow1_eq:
  "xbow1 B T C x = map (\<lambda>b. map (\<lambda>t. mean_dim0 (take (t + 1) (x ! b))) [0..<T]) [0..<B]"
  unfolding xbow1_def Let_def
  using outer_loop[of B "zeros3 B T C" T "\<lambda>b t. mean_dim0 (take (t + 1) (x ! b))"]
  by (simp add: zeros3_def)



lemma mean_dim0_prefix:
  assumes "shape2 T C xb" and "t < T"
  shows "mean_dim0 (take (Suc t) xb)
         = map (\<lambda>c. fdiv (fsum (map (\<lambda>s. xb ! s ! c) [0..<Suc t])) (rnd (real (Suc t)))) [0..<C]"
proof -
  have len: "length xb = T" using assms by (simp add: shape2_def)
  have l: "length (take (Suc t) xb) = Suc t" using assms len by simp
  have "shape2 (Suc t) C (take (Suc t) xb)"
    using assms l by (auto simp: shape2_def list_all_iff dest: in_set_takeD)
  then have nc: "ncols (take (Suc t) xb) = C" by (rule ncols_shape2) simp
  have "col c (take (Suc t) xb) = map (\<lambda>s. xb ! s ! c) [0..<Suc t]" for c
    using l by (intro nth_equalityI) (simp_all add: col_def del: upt_Suc)
  then show ?thesis
    unfolding mean_dim0_def nc l by simp
qed

lemma xbow1_row:
  assumes "shape3 B T C x" and "b < B" and "t < T"
  shows "xbow1 B T C x ! b ! t
         = map (\<lambda>c. fdiv (fsum (map (\<lambda>s. x ! b ! s ! c) [0..<Suc t])) (rnd (real (Suc t))))
             [0..<C]"
proof -
  have "shape2 T C (x ! b)" using assms(1,2) by (rule shape3_nth)
  from mean_dim0_prefix[OF this assms(3)] show ?thesis
    using assms by (simp add: xbow1_eq)
qed

lemma prefix_agree:
  assumes "take (Suc t) xb = take (Suc t) xb'" and "s \<le> t"
  shows "xb ! s = xb' ! s"
proof -
  have "take (Suc t) xb ! s = xb ! s" "take (Suc t) xb' ! s = xb' ! s"
    using assms(2) by simp_all
  with assms(1) show ?thesis by simp
qed

lemma nn_linear_row:
  "b < length x \<Longrightarrow> i < length (x ! b) \<Longrightarrow> nn_linear W x ! b ! i = map (dot (x ! b ! i)) W"
  by (simp add: nn_linear_def)

lemma length_nn_linear: "length (nn_linear W x) = length x"
  by (simp add: nn_linear_def)

lemma shape2_nn_linear:
  "b < length x \<Longrightarrow> shape2 (length (x ! b)) (length W) (nn_linear W x ! b)"
  by (simp add: nn_linear_def shape2_def list_all_length)

lemma transpose_m_shape:
  assumes "shape2 n m a" and "0 < n"
  shows "length (transpose_m a) = m" and "j < m \<Longrightarrow> transpose_m a ! j = col j a"
  using assms by (simp_all add: transpose_m_def ncols_shape2)

lemma col_transpose_m:
  assumes "shape2 n m a" and "0 < n" and "j < n"
  shows "col j (transpose_m a) = a ! j"
proof -
  have "length (a ! j) = m" using assms(1,3) by (rule shape2_nth)
  moreover have "length a = n" using assms(1) by (simp add: shape2_def)
  ultimately show ?thesis
    using assms
    by (intro nth_equalityI) (simp_all add: col_def transpose_m_shape)
qed

lemma ncols_transpose_m:
  assumes "shape2 n m a" and "0 < n" and "0 < m"
  shows "ncols (transpose_m a) = n"
proof -
  have la: "length a = n" using assms(1) by (simp add: shape2_def)
  have "length (transpose_m a) = m"
    and "\<And>j. j < m \<Longrightarrow> length (transpose_m a ! j) = n"
    using la transpose_m_shape[OF assms(1,2)] by (simp_all add: col_def)
  then have "shape2 m n (transpose_m a)"
    by (simp add: shape2_def list_all_length)
  then show ?thesis using assms(3) by (rule ncols_shape2)
qed

lemma qk_row:
  assumes "shape2 T h q" and "shape2 T h k" and "0 < h" and "i < T"
  shows "matmul q (transpose_m k) ! i = map (\<lambda>j. dot (q ! i) (k ! j)) [0..<T]"
proof -
  have T: "0 < T" using assms(4) by simp
  have "length q = T" using assms(1) by (simp add: shape2_def)
  then have "matmul q (transpose_m k) ! i
             = map (\<lambda>j. dot (q ! i) (col j (transpose_m k))) [0..<T]"
    using assms(4) ncols_transpose_m[OF assms(2) T assms(3)] by (simp add: matmul_row)
  also have "\<dots> = map (\<lambda>j. dot (q ! i) (k ! j)) [0..<T]"
    using col_transpose_m[OF assms(2) T] by simp
  finally show ?thesis .
qed

section \<open>The weights of version 2\<close>

lemma unit_valD: "unit_val x \<Longrightarrow> x = Fin (val x) \<and> 0 \<le> val x \<and> val x \<le> 1"
  by (cases x) simp_all

lemma unit_rnd: "0 \<le> x \<Longrightarrow> x \<le> 1 \<Longrightarrow> unit_val (rnd x)"
  using rnd_unit[of x] by auto

lemma rnd_zero: "rnd 0 = Fin 0"
  by (simp add: rnd_def)

lemma rnd_nonpos:
  assumes "x \<le> 0"
  shows "rnd x = NInf \<or> (\<exists>r. rnd x = Fin r \<and> r \<le> 0)"
proof (cases "x = 0")
  case True
  then show ?thesis by (simp add: rnd_zero)
next
  case False
  then have "x / ulp x \<le> of_int 0" using assms ulp_pos[of x] by (simp add: divide_le_0_iff less_imp_le)
  then have "rne (x / ulp x) \<le> 0" by (rule rne_le)
  then have "nearest x \<le> 0" using ulp_pos[of x] by (simp add: nearest_def mult_le_0_iff less_imp_le)
  then show ?thesis using False assms by (simp add: rnd_alt)
qed

lemma is_f32_rnd: "is_f32 (rnd x)"
  by (cases "rnd x") (simp_all add: rnd_idem)

lemma fmul_one_left: "is_f32 x \<Longrightarrow> fmul (Fin 1) x = x"
  by (cases x) simp_all

lemma fadd_zero_left: "is_f32 x \<Longrightarrow> fadd (Fin 0) x = x"
  by (cases x) simp_all

lemma fadd_zero_right: "is_f32 x \<Longrightarrow> fadd x (Fin 0) = x"
  by (cases x) simp_all

lemma fdiv_one_right: "is_f32 x \<Longrightarrow> fdiv x (Fin 1) = x"
  by (cases x) simp_all

lemma fsum_snoc: "fsum (xs @ [x]) = fadd (fsum xs) x"
  by (simp add: fsum_def)

lemma fsum_ones_zeros:
  assumes "i < T" and "Suc i \<le> 2 ^ 24"
  shows "fsum (map (\<lambda>j. if j \<le> i then Fin 1 else Fin 0) [0..<T]) = Fin (real (Suc i))"
proof -
  have "n \<le> T \<Longrightarrow>
        fsum (map (\<lambda>j. if j \<le> i then Fin 1 else Fin 0) [0..<n]) = Fin (real (min n (Suc i)))" for n
  proof (induction n)
    case 0
    then show ?case by (simp add: fsum_def)
  next
    case (Suc n)
    show ?case
    proof (cases "n \<le> i")
      case True
      then have "Suc n \<le> 2 ^ 24" using assms(2) by simp
      then have "rnd (real n + 1) = Fin (real n + 1)" using rnd_nat[of "Suc n"] by (simp add: add.commute)
      then show ?thesis using Suc True by (simp add: fsum_snoc min_def)
    next
      case False
      have r: "rnd (real (Suc i)) = Fin (real (Suc i))" using assms(2) by (rule rnd_nat)
      have m: "min n (Suc i) = Suc i" "min (Suc n) (Suc i) = Suc i" using False by simp_all
      have "fsum (map (\<lambda>j. if j \<le> i then Fin 1 else Fin 0) [0..<n]) = Fin (real (Suc i))"
        using Suc by (simp only: m)
      then show ?thesis using False r by (simp add: fsum_snoc m del: min.absorb4 min.absorb2)
    qed
  qed
  from this[of T] show ?thesis using assms(1) by (simp add: min_def)
qed

lemma length_wei2: "length (wei2 T) = T"
  by (simp add: wei2_def Let_def div_bcast_def sum_dim1_keepdim_def length_tril_ones)

lemma wei2_row:
  assumes "i < T" and "T \<le> 2 ^ 24"
  shows "wei2 T ! i = map (\<lambda>j. if j \<le> i then rnd (1 / real (Suc i)) else Fin 0) [0..<T]"
proof -
  have "Suc i \<le> 2 ^ 24" using assms by simp
  then have s: "fsum (tril (ones T T) ! i) = Fin (real (Suc i))"
    using assms(1) by (simp add: tril_ones_row fsum_ones_zeros)
  have "wei2 T ! i = map (\<lambda>e. fdiv e (Fin (real (Suc i)))) (tril (ones T T) ! i)"
    using assms(1) s
    by (simp add: wei2_def Let_def div_bcast_def sum_dim1_keepdim_def length_tril_ones)
  also have "\<dots> = map (\<lambda>j. if j \<le> i then rnd (1 / real (Suc i)) else Fin 0) [0..<T]"
    using assms(1) by (simp add: tril_ones_row rnd_zero)
  finally show ?thesis .
qed

lemma fmax_below:
  assumes "acc = NInf \<or> is_fin acc" and "z = NInf \<or> is_fin z"
  shows "(fmax acc z = acc \<or> fmax acc z = z)
       \<and> (fmax acc z = NInf \<or> is_fin (fmax acc z))
       \<and> (\<forall>a. acc = Fin a \<or> z = Fin a \<longrightarrow> (\<exists>m. fmax acc z = Fin m \<and> a \<le> m))"
  using assms by (cases acc; cases z) (auto simp: max_def)

lemma foldl_fmax:
  assumes "\<forall>z\<in>set zs. z = NInf \<or> is_fin z" and "acc = NInf \<or> is_fin acc"
  shows "foldl fmax acc zs \<in> insert acc (set zs)
       \<and> (\<forall>a. Fin a \<in> insert acc (set zs) \<longrightarrow> (\<exists>m. foldl fmax acc zs = Fin m \<and> a \<le> m))"
  using assms
proof (induction zs arbitrary: acc)
  case Nil
  then show ?case by auto
next
  case (Cons z zs)
  have z: "z = NInf \<or> is_fin z" using Cons.prems(1) by simp
  note step = fmax_below[OF Cons.prems(2) z]
  have ih: "foldl fmax (fmax acc z) zs \<in> insert (fmax acc z) (set zs)
       \<and> (\<forall>a. Fin a \<in> insert (fmax acc z) (set zs)
              \<longrightarrow> (\<exists>m. foldl fmax (fmax acc z) zs = Fin m \<and> a \<le> m))"
    using Cons.prems(1) step by (intro Cons.IH) simp_all
  have "foldl fmax (fmax acc z) zs \<in> insert acc (set (z # zs))"
    using ih step by auto
  moreover have "\<exists>m. foldl fmax (fmax acc z) zs = Fin m \<and> a \<le> m"
    if "Fin a \<in> insert acc (set (z # zs))" for a
  proof (cases "Fin a \<in> set zs")
    case True
    then show ?thesis using ih by simp
  next
    case False
    then have "acc = Fin a \<or> z = Fin a" using that by auto
    then obtain m where m: "fmax acc z = Fin m" "a \<le> m" using step by blast
    then obtain m' where "foldl fmax (fmax acc z) zs = Fin m'" "m \<le> m'" using ih by auto
    then show ?thesis using m by auto
  qed
  ultimately show ?case by simp
qed

lemma rowmax_causal:
  assumes "i < T"
  shows "\<exists>m. foldl fmax NInf (map (\<lambda>j. if j \<le> i then Fin (a j) else NInf) [0..<T]) = Fin m
            \<and> (\<forall>j\<le>i. a j \<le> m) \<and> (\<exists>j\<le>i. a j = m)"
proof -
  let ?row = "map (\<lambda>j. if j \<le> i then Fin (a j) else NInf) [0..<T]"
  have "\<forall>z\<in>set ?row. z = NInf \<or> is_fin z" by auto
  from foldl_fmax[OF this, of NInf]
  have mem: "foldl fmax NInf ?row \<in> insert NInf (set ?row)"
    and ub: "\<And>a. Fin a \<in> set ?row \<Longrightarrow> \<exists>m. foldl fmax NInf ?row = Fin m \<and> a \<le> m"
    by auto
  have in_row: "Fin (a j) \<in> set ?row" if "j \<le> i" for j
    using that assms by (auto simp: image_iff intro!: bexI[of _ j])
  from ub[OF in_row[of 0]] obtain m where m: "foldl fmax NInf ?row = Fin m" by auto
  have "a j \<le> m" if "j \<le> i" for j
    using ub[OF in_row[OF that]] m by simp
  moreover have "\<exists>j\<le>i. a j = m"
    using mem m by (auto split: if_splits)
  ultimately show ?thesis using m by blast
qed

section \<open>The softmax of a causal row\<close>

lemma fsub_fin: "fsub (Fin a) (Fin m) = rnd (a - m)"
  by (simp add: fsub_def)

lemma fsub_ninf_fin: "fsub NInf (Fin m) = NInf"
  by (simp add: fsub_def)

lemma unit_fexp_fsub:
  assumes "a \<le> m"
  shows "unit_val (fexp (fsub (Fin a) (Fin m)))"
proof -
  have "rnd (a - m) = NInf \<or> (\<exists>r. rnd (a - m) = Fin r \<and> r \<le> 0)"
    using assms by (intro rnd_nonpos) simp
  then show ?thesis
    by (auto simp: fsub_fin intro!: unit_rnd)
qed

lemma fexp_fsub_self: "fexp (fsub (Fin m) (Fin m)) = Fin 1"
  by (simp add: fsub_fin rnd_zero rnd_one)

lemma sum_ok_step0: "sum_ok 0 acc \<Longrightarrow> unit_val x \<Longrightarrow> sum_ok 0 (fadd acc x)"
  using rnd_nonneg by (cases acc; cases x) (auto simp: sum_ok_def)

lemma sum_ok_step1: "sum_ok 1 acc \<Longrightarrow> unit_val x \<Longrightarrow> sum_ok 1 (fadd acc x)"
  using rnd_ge1 by (cases acc; cases x) (auto simp: sum_ok_def)

lemma sum_ok_hit: "sum_ok 0 acc \<Longrightarrow> sum_ok 1 (fadd acc (Fin 1))"
  using rnd_ge1 by (cases acc) (auto simp: sum_ok_def)

lemma foldl_sum_ok1:
  "sum_ok 1 acc \<Longrightarrow> \<forall>x\<in>set xs. unit_val x \<Longrightarrow> sum_ok 1 (foldl fadd acc xs)"
  by (induction xs arbitrary: acc) (simp_all add: sum_ok_step1)

lemma foldl_sum_ok:
  assumes "sum_ok 0 acc" and "\<forall>x\<in>set xs. unit_val x" and "Fin 1 \<in> set xs"
  shows "sum_ok 1 (foldl fadd acc xs)"
  using assms
proof (induction xs arbitrary: acc)
  case Nil
  then show ?case by simp
next
  case (Cons x xs)
  show ?case
  proof (cases "x = Fin 1")
    case True
    then have "sum_ok 1 (fadd acc x)" using Cons.prems(1) by (simp add: sum_ok_hit)
    then show ?thesis using Cons.prems(2) by (simp add: foldl_sum_ok1)
  next
    case False
    then have "Fin 1 \<in> set xs" using Cons.prems(3) by simp
    moreover have "sum_ok 0 (fadd acc x)" using Cons.prems by (simp add: sum_ok_step0)
    ultimately show ?thesis using Cons.prems(2) Cons.IH by simp
  qed
qed

lemma fsum_units:
  assumes "\<forall>x\<in>set xs. unit_val x" and "Fin 1 \<in> set xs"
  shows "sum_ok 1 (fsum xs)"
  unfolding fsum_def using assms by (intro foldl_sum_ok) (simp_all add: sum_ok_def)

lemma unit_reciprocal:
  assumes "sum_ok 1 s"
  shows "unit_val (fdiv (Fin 1) s)"
proof (cases s)
  case (Fin r)
  then have "1 \<le> r" using assms by (simp add: sum_ok_def)
  then have "0 \<le> 1 / r" "1 / r \<le> 1" "r \<noteq> 0" by simp_all
  then show ?thesis using Fin by (simp add: unit_rnd)
qed (use assms in \<open>simp_all add: sum_ok_def\<close>)

lemma unit_fmul: "unit_val x \<Longrightarrow> unit_val y \<Longrightarrow> unit_val (fmul x y)"
  by (cases x; cases y) (simp_all add: unit_rnd mult_le_one)

lemma fmul_zero_unit: "unit_val y \<Longrightarrow> fmul (Fin 0) y = Fin 0"
  by (cases y) (simp_all add: rnd_zero)

lemma softmax_causal:
  assumes "i < T"
  shows "\<exists>w. softmax_row (map (\<lambda>j. if j \<le> i then Fin (a j) else NInf) [0..<T])
              = map (\<lambda>j. if j \<le> i then Fin (w j) else Fin 0) [0..<T]
            \<and> (\<forall>j\<le>i. 0 \<le> w j \<and> w j \<le> 1)"
proof -
  let ?row = "map (\<lambda>j. if j \<le> i then Fin (a j) else NInf) [0..<T]"
  obtain m where m: "foldl fmax NInf ?row = Fin m" and ub: "\<And>j. j \<le> i \<Longrightarrow> a j \<le> m"
    and hit: "\<exists>j\<le>i. a j = m"
    using rowmax_causal[OF assms, of a] by blast
  define e where "e j = (if j \<le> i then fexp (fsub (Fin (a j)) (Fin m)) else Fin 0)" for j
  have e_unit: "unit_val (e j)" for j
    using ub by (simp add: e_def unit_fexp_fsub)
  have es: "map (\<lambda>z. fexp (fsub z (Fin m))) ?row = map e [0..<T]"
    by (simp add: e_def fsub_ninf_fin)
  obtain j0 where j0: "j0 \<le> i" "a j0 = m" using hit by blast
  then have "e j0 = Fin 1" by (simp add: e_def fexp_fsub_self)
  then have "Fin 1 \<in> set (map e [0..<T])"
    using j0(1) assms by (auto simp: image_iff intro!: bexI[of _ j0])
  moreover have "\<forall>x\<in>set (map e [0..<T]). unit_val x" using e_unit by simp
  ultimately have "sum_ok 1 (fsum (map e [0..<T]))" by (intro fsum_units)
  then have r: "unit_val (fdiv (Fin 1) (fsum (map e [0..<T])))" by (rule unit_reciprocal)
  define r where "r = fdiv (Fin 1) (fsum (map e [0..<T]))"
  define w where "w j = val (fmul (e j) r)" for j
  have r_unit: "unit_val r" using r by (simp add: r_def)
  have vis: "fmul (e j) r = Fin (w j) \<and> 0 \<le> w j \<and> w j \<le> 1" for j
    using unit_valD[OF unit_fmul[OF e_unit[of j] r_unit]] by (simp add: w_def)
  have msk: "fmul (e j) r = Fin 0" if "i < j" for j
    using that r_unit by (simp add: e_def fmul_zero_unit)
  have "softmax_row ?row = map (\<lambda>y. fmul y r) (map e [0..<T])"
    unfolding softmax_row_def Let_def m es r_def ..
  also have "\<dots> = map (\<lambda>j. fmul (e j) r) [0..<T]"
    by (simp add: o_def)
  also have "\<dots> = map (\<lambda>j. if j \<le> i then Fin (w j) else Fin 0) [0..<T]"
    using vis msk by (intro map_cong) auto
  finally show ?thesis using vis by blast
qed

lemma length_wei3: "length (wei3 T) = T"
  by (simp add: wei3_def Let_def softmax_def masked_fill_def eq_zero_def zeros_def
      length_tril_ones)

lemma wei3_masked_row:
  assumes "i < T"
  shows "masked_fill (zeros T T) (eq_zero (tril (ones T T))) NInf ! i
        = map (\<lambda>j. if j \<le> i then Fin 0 else NInf) [0..<T]"
  using assms causal_masked_row[of i T "zeros T T"] by (simp add: zeros_def)

lemma wei3_row:
  assumes "i < T" and "T \<le> 2 ^ 24"
  shows "wei3 T ! i = map (\<lambda>j. if j \<le> i then rnd (1 / real (Suc i)) else Fin 0) [0..<T]"
proof -
  let ?row = "map (\<lambda>j. if j \<le> i then Fin 0 else NInf) [0..<T]"
  have "\<exists>m. foldl fmax NInf ?row = Fin m \<and> (\<forall>j\<le>i. (0::real) \<le> m) \<and> (\<exists>j\<le>i. (0::real) = m)"
    using rowmax_causal[OF assms(1), of "\<lambda>_. 0"] by simp
  then have m: "foldl fmax NInf ?row = Fin 0" by auto
  have es: "map (\<lambda>z. fexp (fsub z (Fin 0))) ?row = map (\<lambda>j. if j \<le> i then Fin 1 else Fin 0) [0..<T]"
    by (simp add: fsub_ninf_fin fexp_fsub_self)
  have "Suc i \<le> 2 ^ 24" using assms by simp
  then have s: "fsum (map (\<lambda>j. if j \<le> i then Fin 1 else Fin 0) [0..<T]) = Fin (real (Suc i))"
    using assms(1) by (rule fsum_ones_zeros[rotated])
  have u: "unit_val (rnd (1 / real (Suc i)))"
    by (intro unit_rnd) simp_all
  have one: "fmul (Fin 1) (rnd (1 / real (Suc i))) = rnd (1 / real (Suc i))"
    by (intro fmul_one_left is_f32_rnd)
  have "wei3 T ! i = softmax_row ?row"
    using assms(1) by (simp add: wei3_def Let_def softmax_def length_causal_masked zeros_def
        wei3_masked_row[unfolded zeros_def])
  also have "\<dots> = map (\<lambda>y. fmul y (fdiv (Fin 1) (Fin (real (Suc i)))))
                      (map (\<lambda>j. if j \<le> i then Fin 1 else Fin 0) [0..<T])"
    unfolding softmax_row_def Let_def m es s ..
  also have "\<dots> = map (\<lambda>j. fmul (if j \<le> i then Fin 1 else Fin 0) (rnd (1 / real (Suc i)))) [0..<T]"
    by (simp add: o_def del: of_nat_Suc)
  also have "\<dots> = map (\<lambda>j. if j \<le> i then rnd (1 / real (Suc i)) else Fin 0) [0..<T]"
    using one fmul_zero_unit[OF u] by (intro map_cong) (auto simp del: of_nat_Suc)
  finally show ?thesis .
qed

lemma wei3_row_unit:
  assumes "i < T"
  shows "\<exists>w. wei3 T ! i = map (\<lambda>j. if j \<le> i then Fin (w j) else Fin 0) [0..<T]
            \<and> (\<forall>j\<le>i. 0 \<le> w j \<and> w j \<le> 1)"
proof -
  have "wei3 T ! i = softmax_row (map (\<lambda>j. if j \<le> i then Fin 0 else NInf) [0..<T])"
    using assms by (simp add: wei3_def Let_def softmax_def length_causal_masked zeros_def
        wei3_masked_row[unfolded zeros_def])
  then show ?thesis using softmax_causal[OF assms, of "\<lambda>_. 0"] by simp
qed

section \<open>The rows of the attention head\<close>

lemma raw_row:
  assumes sh: "shape3 B T C x" and b: "b < B" and i: "i < T"
    and hq: "length Wq = h" and hk: "length Wk = h" and h: "0 < h"
  shows "length (bmm (nn_linear Wq x) (transpose_last (nn_linear Wk x))) = B"
    and "length (bmm (nn_linear Wq x) (transpose_last (nn_linear Wk x)) ! b) = T"
    and "bmm (nn_linear Wq x) (transpose_last (nn_linear Wk x)) ! b ! i
         = map (raw_score Wq Wk (x ! b) i) [0..<T]"
proof -
  have lx: "length x = B" using sh by (simp add: shape3_def)
  have s2: "shape2 T C (x ! b)" using sh b by (rule shape3_nth)
  have lxb: "length (x ! b) = T" using s2 by (simp add: shape2_def)
  let ?q = "nn_linear Wq x ! b" and ?k = "nn_linear Wk x ! b"
  let ?raw = "bmm (nn_linear Wq x) (transpose_last (nn_linear Wk x))"
  have q: "shape2 T h ?q" and k: "shape2 T h ?k"
    using shape2_nn_linear[of b x Wq] shape2_nn_linear[of b x Wk] b lx lxb hq hk by simp_all
  have qi: "?q ! i = map (dot (x ! b ! i)) Wq"
    using b i lx lxb by (simp add: nn_linear_row)
  have kj: "?k ! j = map (dot (x ! b ! j)) Wk" if "j < T" for j
    using b that lx lxb by (simp add: nn_linear_row)
  show lraw: "length ?raw = B"
    using lx by (simp add: bmm_def transpose_last_def length_nn_linear)
  have raw: "?raw ! b = matmul ?q (transpose_m ?k)"
    using b lx by (simp add: bmm_def transpose_last_def length_nn_linear)
  have lq: "length ?q = T" using q by (simp add: shape2_def)
  show "length (?raw ! b) = T" using raw lq by (simp add: length_matmul)
  have "?raw ! b ! i = map (\<lambda>j. dot (?q ! i) (?k ! j)) [0..<T]"
    using qk_row[OF q k h i] raw by simp
  also have "\<dots> = map (raw_score Wq Wk (x ! b) i) [0..<T]"
    using qi kj by (simp add: raw_score_def)
  finally show "?raw ! b ! i = map (raw_score Wq Wk (x ! b) i) [0..<T]" .
qed

lemma attention_scores_row:
  assumes sh: "shape3 B T C x" and b: "b < B" and i: "i < T"
    and hq: "length Wq = h" and hk: "length Wk = h" and h: "0 < h"
  shows "length (attention_scores Wq Wk head_size x) = B"
    and "length (attention_scores Wq Wk head_size x ! b) = T"
    and "attention_scores Wq Wk head_size x ! b ! i = map (score Wq Wk head_size (x ! b) i) [0..<T]"
  using b i raw_row[OF sh b i hq hk h]
  by (simp_all add: attention_scores_def Let_def scale3_def score_def)

lemma attention_wei_row:
  assumes sh: "shape3 B T C x" and b: "b < B" and i: "i < T"
    and hq: "length Wq = h" and hk: "length Wk = h" and h: "0 < h"
  shows "attention_wei Wq Wk head_size T x ! b ! i
         = softmax_row (map (\<lambda>j. if j \<le> i then score Wq Wk head_size (x ! b) i j else NInf)
                          [0..<T])"
proof -
  note r = attention_scores_row[OF sh b i hq hk h, of head_size]
  let ?w = "attention_scores Wq Wk head_size x ! b"
  have "attention_wei Wq Wk head_size T x ! b ! i
        = softmax_row (masked_fill ?w (eq_zero (tril (ones T T))) NInf ! i)"
    using b i r(1,2)
    by (simp add: attention_wei_def Let_def softmax_def length_causal_masked)
  also have "masked_fill ?w (eq_zero (tril (ones T T))) NInf ! i
        = map (\<lambda>j. if j \<le> i then score Wq Wk head_size (x ! b) i j else NInf) [0..<T]"
    using causal_masked_row[OF i r(2)] r(3) by simp
  finally show ?thesis .
qed

lemma mask_then_scale_row:
  assumes sh: "shape3 B T C x" and b: "b < B" and i: "i < T"
    and hq: "length Wq = h" and hk: "length Wk = h" and h: "0 < h"
  shows "mask_then_scale_wei Wq Wk head_size T x ! b ! i
         = softmax_row (map (\<lambda>j. fmul (if j \<le> i then raw_score Wq Wk (x ! b) i j else NInf)
                                      (scale_factor head_size)) [0..<T])"
proof -
  let ?raw = "bmm (nn_linear Wq x) (transpose_last (nn_linear Wk x))"
  let ?c = "scale_factor head_size"
  note r = raw_row[OF sh b i hq hk h]
  have len: "length (?raw ! b ! i) = T" using r(3) by simp
  have "mask_then_scale_wei Wq Wk head_size T x ! b ! i
        = softmax_row (map (\<lambda>e. fmul e ?c)
            (masked_fill (?raw ! b) (eq_zero (tril (ones T T))) NInf ! i))"
    using b i r(1,2)
    by (simp add: mask_then_scale_wei_def Let_def softmax_def scale3_def length_causal_masked)
  also have "masked_fill (?raw ! b) (eq_zero (tril (ones T T))) NInf ! i
        = map (\<lambda>j. if j \<le> i then raw_score Wq Wk (x ! b) i j else NInf) [0..<T]"
    using causal_masked_row[OF i r(2) len] r(3) by simp
  finally show ?thesis by (simp add: o_def)
qed

lemma softmax_then_scale_row:
  assumes sh: "shape3 B T C x" and b: "b < B" and i: "i < T"
    and hq: "length Wq = h" and hk: "length Wk = h" and h: "0 < h"
  shows "softmax_then_scale_wei Wq Wk head_size T x ! b ! i
         = map (\<lambda>e. fmul e (scale_factor head_size))
             (softmax_row (map (\<lambda>j. if j \<le> i then raw_score Wq Wk (x ! b) i j else NInf)
                             [0..<T]))"
proof -
  let ?raw = "bmm (nn_linear Wq x) (transpose_last (nn_linear Wk x))"
  note r = raw_row[OF sh b i hq hk h]
  have len: "length (?raw ! b ! i) = T" using r(3) by simp
  have "softmax_then_scale_wei Wq Wk head_size T x ! b ! i
        = map (\<lambda>e. fmul e (scale_factor head_size))
            (softmax_row (masked_fill (?raw ! b) (eq_zero (tril (ones T T))) NInf ! i))"
    using b i r(1,2)
    by (simp add: softmax_then_scale_wei_def Let_def softmax_def scale3_def length_causal_masked)
  also have "masked_fill (?raw ! b) (eq_zero (tril (ones T T))) NInf ! i
        = map (\<lambda>j. if j \<le> i then raw_score Wq Wk (x ! b) i j else NInf) [0..<T]"
    using causal_masked_row[OF i r(2) len] r(3) by simp
  finally show ?thesis .
qed

lemma length_attention_wei: "length (attention_wei Wq Wk head_size T x) = length x"
  by (simp add: attention_wei_def attention_scores_def Let_def scale3_def bmm_def
      transpose_last_def length_nn_linear)

lemma length_mask_then_scale: "length (mask_then_scale_wei Wq Wk head_size T x) = length x"
  by (simp add: mask_then_scale_wei_def Let_def scale3_def bmm_def transpose_last_def
      length_nn_linear)

lemma length_attention_wei_nth:
  assumes "shape3 B T C x" and "b < B"
  shows "length (attention_wei Wq Wk head_size T x ! b) = T"
proof -
  have lx: "length x = B" using assms by (simp add: shape3_def)
  have "length (x ! b) = T" using shape3_nth[OF assms] by (simp add: shape2_def)
  then show ?thesis
    using assms(2) lx
    by (simp add: attention_wei_def attention_scores_def Let_def softmax_def masked_fill_def
        scale3_def bmm_def transpose_last_def length_nn_linear length_eq_zero_tril nn_linear_def
        matmul_def)
qed

lemma length_mask_then_scale_nth:
  assumes "shape3 B T C x" and "b < B"
  shows "length (mask_then_scale_wei Wq Wk head_size T x ! b) = T"
proof -
  have lx: "length x = B" using assms by (simp add: shape3_def)
  have "length (x ! b) = T" using shape3_nth[OF assms] by (simp add: shape2_def)
  then show ?thesis
    using assms(2) lx
    by (simp add: mask_then_scale_wei_def Let_def softmax_def masked_fill_def scale3_def bmm_def
        transpose_last_def length_nn_linear length_eq_zero_tril nn_linear_def matmul_def)
qed

lemma attention_out_row:
  assumes sh: "shape3 B T C x" and b: "b < B" and t: "t < T"
  shows "attention_out Wq Wk Wv head_size T x ! b ! t
         = map (\<lambda>c. dot (attention_wei Wq Wk head_size T x ! b ! t)
                      (map (\<lambda>j. dot (x ! b ! j) (Wv ! c)) [0..<T])) [0..<length Wv]"
proof -
  have lx: "length x = B" using sh by (simp add: shape3_def)
  have s2: "shape2 T C (x ! b)" using sh b by (rule shape3_nth)
  have lxb: "length (x ! b) = T" using s2 by (simp add: shape2_def)
  let ?v = "nn_linear Wv x ! b" and ?w = "attention_wei Wq Wk head_size T x ! b"
  have v: "shape2 T (length Wv) ?v"
    using shape2_nn_linear[of b x Wv] b lx lxb by simp
  have lv: "length ?v = T" using v by (simp add: shape2_def)
  have nc: "ncols ?v = length Wv" using v t by (intro ncols_shape2[of T]) simp_all
  have lw: "length ?w = T" using sh b by (rule length_attention_wei_nth)
  have cv: "col c ?v = map (\<lambda>j. dot (x ! b ! j) (Wv ! c)) [0..<T]" if "c < length Wv" for c
    using that b lx lxb lv by (intro nth_equalityI) (simp_all add: col_def nn_linear_row)
  have "attention_out Wq Wk Wv head_size T x ! b = matmul ?w ?v"
    using b lx
    by (simp add: attention_out_def Let_def bmm_def length_attention_wei length_nn_linear)
  then have "attention_out Wq Wk Wv head_size T x ! b ! t
             = map (\<lambda>c. dot (?w ! t) (col c ?v)) [0..<length Wv]"
    using t lw nc by (simp add: matmul_row)
  also have "\<dots> = map (\<lambda>c. dot (?w ! t) (map (\<lambda>j. dot (x ! b ! j) (Wv ! c)) [0..<T]))
                      [0..<length Wv]"
    using cv by simp
  finally show ?thesis .
qed

section \<open>Sums with zero weights\<close>

lemma is_f32_fadd: "is_f32 (fadd a b)"
  by (cases a; cases b) (simp_all add: is_f32_rnd)

lemma is_f32_fsum: "is_f32 (fsum xs)"
  by (cases xs rule: rev_cases) (simp_all add: fsum_def rnd_zero is_f32_fadd)

lemma is_f32_dot: "is_f32 (dot u v)"
  by (simp add: dot_def is_f32_fsum)

lemma dot_maps:
  "dot (map f [0..<T]) (map g [0..<T]) = fsum (map (\<lambda>j. fmul (f j) (g j)) [0..<T])"
proof -
  have "map2 fmul (map f [0..<T]) (map g [0..<T]) = map (\<lambda>j. fmul (f j) (g j)) [0..<T]"
    by (intro nth_equalityI) simp_all
  then show ?thesis by (simp add: dot_def)
qed

lemma dot_causal:
  assumes "\<And>j. t < j \<Longrightarrow> j < T \<Longrightarrow> is_fin (v j)"
  shows "dot (map (\<lambda>j. if j \<le> t then w j else Fin 0) [0..<T]) (map v [0..<T])
         = fsum (map (\<lambda>j. if j \<le> t then fmul (w j) (v j) else Fin 0) [0..<T])"
proof -
  have z: "fmul (Fin 0) (v j) = Fin 0" if "t < j" "j < T" for j
    using assms[OF that] by (cases "v j") (simp_all add: rnd_zero)
  have eq: "map (\<lambda>j. fmul (if j \<le> t then w j else Fin 0) (v j)) [0..<T]
             = map (\<lambda>j. if j \<le> t then fmul (w j) (v j) else Fin 0) [0..<T]"
    using z by (intro map_cong) auto
  show ?thesis unfolding dot_maps eq ..
qed

lemma fsum_first:
  assumes "0 < T" and "is_f32 u"
  shows "fsum (map (\<lambda>j. if j = 0 then u else Fin 0) [0..<T]) = u"
proof -
  have "0 < n \<Longrightarrow> fsum (map (\<lambda>j. if j = 0 then u else Fin 0) [0..<n]) = u" for n
  proof (induction n)
    case 0
    then show ?case by simp
  next
    case (Suc n)
    show ?case
    proof (cases "n = 0")
      case True
      then show ?thesis using assms(2) by (simp add: fsum_def fadd_zero_left)
    next
      case False
      then show ?thesis using Suc assms(2) by (simp add: fsum_snoc fadd_zero_right)
    qed
  qed
  then show ?thesis using assms(1) by simp
qed

lemma dot_onehot:
  assumes "0 < T" and "is_f32 (v 0)" and "\<And>j. 0 < j \<Longrightarrow> j < T \<Longrightarrow> is_fin (v j)"
  shows "dot (map (\<lambda>j. if j = 0 then Fin 1 else Fin 0) [0..<T]) (map v [0..<T]) = v 0"
proof -
  have "dot (map (\<lambda>j. if j \<le> 0 then Fin 1 else Fin 0) [0..<T]) (map v [0..<T])
        = fsum (map (\<lambda>j. if j \<le> 0 then fmul (Fin 1) (v j) else Fin 0) [0..<T])"
    using assms(3) by (intro dot_causal) simp
  moreover have "map (\<lambda>j. if j = 0 then fmul (Fin 1) (v j) else Fin 0) [0..<T]
                 = map (\<lambda>j. if j = 0 then v 0 else Fin 0) [0..<T]"
    using assms(2) by (intro map_cong) (auto simp: fmul_one_left)
  ultimately have "dot (map (\<lambda>j. if j = 0 then Fin 1 else Fin 0) [0..<T]) (map v [0..<T])
        = fsum (map (\<lambda>j. if j = 0 then v 0 else Fin 0) [0..<T])"
    by simp
  also have "\<dots> = v 0" using assms(1,2) by (rule fsum_first)
  finally show ?thesis .
qed

lemma softmax_first:
  assumes "0 < T"
  shows "softmax_row (map (\<lambda>j. if j = 0 then Fin a else NInf) [0..<T])
         = map (\<lambda>j. if j = 0 then Fin 1 else Fin 0) [0..<T]"
proof -
  let ?row = "map (\<lambda>j. if j = 0 then Fin a else NInf) [0..<T]"
  have m: "foldl fmax NInf ?row = Fin a"
    using rowmax_causal[of 0 T "\<lambda>_. a"] assms by auto
  have es: "map (\<lambda>z. fexp (fsub z (Fin a))) ?row = map (\<lambda>j. if j = 0 then Fin 1 else Fin 0) [0..<T]"
    by (simp add: fsub_ninf_fin fexp_fsub_self)
  have s: "fsum (map (\<lambda>j. if j = 0 then Fin 1 else Fin 0) [0..<T]) = Fin 1"
    using assms by (intro fsum_first) (simp_all add: rnd_one)
  have "softmax_row ?row = map (\<lambda>y. fmul y (fdiv (Fin 1) (Fin 1)))
                             (map (\<lambda>j. if j = 0 then Fin 1 else Fin 0) [0..<T])"
    unfolding softmax_row_def Let_def m es s ..
  also have "\<dots> = map (\<lambda>j. if j = 0 then Fin 1 else Fin 0) [0..<T]"
    by (simp add: o_def rnd_one rnd_zero)
  finally show ?thesis .
qed

lemma wei3_eq_wei2:
  assumes "T \<le> 2 ^ 24"
  shows "wei3 T = wei2 T"
  using assms
  by (intro nth_equalityI) (simp_all add: length_wei2 length_wei3 wei2_row wei3_row)

lemma scale_factor_16: "scale_factor 16 = Fin (1 / 4)"
proof -
  have "(16::real) powr (- 0.5) = 1 / 16 powr 0.5" by (rule powr_minus_divide)
  also have "(16::real) powr 0.5 = sqrt 16" using powr_half_sqrt[of 16] by simp
  also have "sqrt 16 = (4::real)" using real_sqrt_abs[of 4] by simp
  finally have p: "(16::real) powr (- 0.5) = 1 / 4" .
  show ?thesis unfolding scale_factor_def of_nat_numeral p by (rule rnd_simps)
qed

lemma xbow2_row:
  assumes "shape3 B T C x" and "b < B" and "t < T"
  shows "xbow2 T x ! b ! t
         = map (\<lambda>c. dot (wei2 T ! t) (map (\<lambda>j. x ! b ! j ! c) [0..<T])) [0..<C]"
proof -
  have s2: "shape2 T C (x ! b)" using assms(1,2) by (rule shape3_nth)
  have len: "length (x ! b) = T" using s2 by (simp add: shape2_def)
  have nc: "ncols (x ! b) = C" using s2 assms(3) by (intro ncols_shape2[of T]) simp_all
  have lx: "length x = B" using assms(1) by (simp add: shape3_def)
  have cl: "col c (x ! b) = map (\<lambda>j. x ! b ! j ! c) [0..<T]" for c
    using len by (intro nth_equalityI) (simp_all add: col_def)
  show ?thesis
    using assms(2,3) lx nc cl
    by (simp add: xbow2_def matmul_bcast_def matmul_row length_wei2)
qed

section \<open>Facts used by several statements\<close>

lemma third_inexact: "rnd (1 / 3) \<noteq> Fin (1 / 3)"
  by (simp add: rnd_third)


lemma rnd_big: "rnd 170141183460469231731687303715884105728 = Fin 170141183460469231731687303715884105728"
  "rnd 85070591730234615865843651857942052864 = Fin 85070591730234615865843651857942052864"
  "rnd 340282366920938463463374607431768211456 = PInf"
  using rnd_simps(6) rnd_simps(5) rnd_huge by (simp_all add: huge_def)

lemma xbow_first:
  assumes sh: "shape3 B T C x" and b: "b < B" and T: "0 < T" and TT: "T \<le> 2 ^ 24"
    and fin: "list_all (list_all finite_f32) (x ! b)"
  shows "xbow1 B T C x ! b ! 0 = x ! b ! 0"
    and "xbow2 T x ! b ! 0 = x ! b ! 0"
    and "xbow3 T x ! b ! 0 = x ! b ! 0"
proof -
  have s2: "shape2 T C (x ! b)" using sh b by (rule shape3_nth)
  have lxb: "length (x ! b) = T" using s2 by (simp add: shape2_def)
  have lrow: "length (x ! b ! j) = C" if "j < T" for j using s2 that by (rule shape2_nth)
  have f: "is_fin (x ! b ! j ! c)" "is_f32 (x ! b ! j ! c)" if "j < T" "c < C" for j c
    using fin that lxb lrow[OF that(1)] by (simp_all add: list_all_length finite_f32_def)
  have "fdiv (fsum [x ! b ! 0 ! c]) (rnd (real (Suc 0))) = x ! b ! 0 ! c" if "c < C" for c
    using f(2)[OF T that] by (simp add: fsum_def fadd_zero_left rnd_one fdiv_one_right)
  then show "xbow1 B T C x ! b ! 0 = x ! b ! 0"
    using xbow1_row[OF sh b T] lrow[OF T] by (intro nth_equalityI) simp_all
  have w0: "wei2 T ! 0 = map (\<lambda>j. if j = 0 then Fin 1 else Fin 0) [0..<T]"
    using wei2_row[OF T TT] by (simp add: rnd_one)
  have "dot (wei2 T ! 0) (map (\<lambda>j. x ! b ! j ! c) [0..<T]) = x ! b ! 0 ! c" if "c < C" for c
    unfolding w0 using T f that by (intro dot_onehot) simp_all
  then show 2: "xbow2 T x ! b ! 0 = x ! b ! 0"
    using xbow2_row[OF sh b T] lrow[OF T] by (intro nth_equalityI) simp_all
  show "xbow3 T x ! b ! 0 = x ! b ! 0"
    using 2 TT by (simp add: xbow2_def xbow3_def wei3_eq_wei2)
qed

lemma example_out:
  "attention_out [[Fin 1]] [[Fin 1]] [[Fin 2]] 1 2 [[[Fin 1], [Fin 2]]] ! 0 ! 0 = [Fin 2]"
  "attention_out [[Fin 1]] [[Fin 1]] [[Fin 2]] 1 2 [[[Fin 1], [Fin (2 ^ 127)]]] ! 0 ! 0 = [NaN]"
  "nn_linear [[Fin 2]] [[[Fin 1], [Fin (2 ^ 127)]]] ! 0 ! 0 = [Fin 2]"
proof -
  have s: "shape3 1 2 1 [[[Fin 1], [Fin 2]]]" "shape3 1 2 1 [[[Fin 1], [Fin (2 ^ 127)]]]"
    by (simp_all add: shape3_def shape2_def)
  have w: "attention_wei [[Fin 1]] [[Fin 1]] 1 2 [[[Fin 1], [y]]] ! 0 ! 0 = [Fin 1, Fin 0]" for y
  proof -
    have "shape3 1 2 1 [[[Fin 1], [y]]]" by (simp add: shape3_def shape2_def)
    from attention_wei_row[OF this, of 0 0 "[[Fin 1]]" 1 "[[Fin 1]]" 1]
    have "attention_wei [[Fin 1]] [[Fin 1]] 1 2 [[[Fin 1], [y]]] ! 0 ! 0
          = softmax_row (map (\<lambda>j. if j = 0 then Fin 1 else NInf) [0..<2])"
      by (simp add: score_def raw_score_def dot_def fsum_def rnd_one scale_factor_def
          cong: if_cong)
    then show ?thesis using softmax_first[of 2 1] by (simp add: upt_rec)
  qed
  show "attention_out [[Fin 1]] [[Fin 1]] [[Fin 2]] 1 2 [[[Fin 1], [Fin 2]]] ! 0 ! 0 = [Fin 2]"
    using attention_out_row[OF s(1), of 0 0 "[[Fin 1]]" "[[Fin 1]]" "[[Fin 2]]" 1] w[of "Fin 2"]
    by (simp add: upt_rec dot_def fsum_def rnd_simps rnd_zero)
  show "attention_out [[Fin 1]] [[Fin 1]] [[Fin 2]] 1 2 [[[Fin 1], [Fin (2 ^ 127)]]] ! 0 ! 0 = [NaN]"
    using attention_out_row[OF s(2), of 0 0 "[[Fin 1]]" "[[Fin 1]]" "[[Fin 2]]" 1]
      w[of "Fin (2 ^ 127)"]
    by (simp add: upt_rec dot_def fsum_def rnd_simps rnd_zero rnd_big)
  show "nn_linear [[Fin 2]] [[[Fin 1], [Fin (2 ^ 127)]]] ! 0 ! 0 = [Fin 2]"
    by (simp add: nn_linear_def dot_def fsum_def rnd_simps)
qed

lemma attention_wei_unit_row:
  assumes sh: "shape3 B T C x" and b: "b < B" and i: "i < T"
    and hq: "length Wq = h" and hk: "length Wk = h" and h: "0 < h"
    and fin: "\<forall>j\<le>i. is_fin (attention_scores Wq Wk hs x ! b ! i ! j)"
  shows "\<exists>w. attention_wei Wq Wk hs T x ! b ! i
              = map (\<lambda>j. if j \<le> i then Fin (w j) else Fin 0) [0..<T]
            \<and> (\<forall>j\<le>i. 0 \<le> w j \<and> w j \<le> 1)"
proof -
  note r = attention_scores_row[OF sh b i hq hk h, of hs]
  have "score Wq Wk hs (x ! b) i j = Fin (val (score Wq Wk hs (x ! b) i j))" if "j \<le> i" for j
  proof -
    have "is_fin (score Wq Wk hs (x ! b) i j)" using fin that i r(3) by simp
    then show ?thesis by (cases "score Wq Wk hs (x ! b) i j") simp_all
  qed
  then have eq: "map (\<lambda>j. if j \<le> i then score Wq Wk hs (x ! b) i j else NInf) [0..<T]
             = map (\<lambda>j. if j \<le> i then Fin (val (score Wq Wk hs (x ! b) i j)) else NInf) [0..<T]"
    by (intro map_cong) auto
  have "attention_wei Wq Wk hs T x ! b ! i
             = softmax_row (map (\<lambda>j. if j \<le> i then Fin (val (score Wq Wk hs (x ! b) i j))
                                       else NInf) [0..<T])"
    unfolding eq[symmetric] by (rule attention_wei_row[OF sh b i hq hk h])
  then show ?thesis
    using softmax_causal[OF i, of "\<lambda>j. val (score Wq Wk hs (x ! b) i j)"] by simp
qed


lemma attention_first_row:
  assumes sh: "shape3 B T C x" and b: "b < B" and T: "0 < T"
    and hq: "length Wq = h" and hk: "length Wk = h" and h: "0 < h"
    and fin: "is_fin (attention_scores Wq Wk hs x ! b ! 0 ! 0)"
  shows "attention_wei Wq Wk hs T x ! b ! 0 = map (\<lambda>j. if j = 0 then Fin 1 else Fin 0) [0..<T]"
proof -
  note r = attention_scores_row[OF sh b T hq hk h, of hs]
  have "is_fin (score Wq Wk hs (x ! b) 0 0)" using fin T r(3) by simp
  then obtain a where a: "score Wq Wk hs (x ! b) 0 0 = Fin a"
    by (cases "score Wq Wk hs (x ! b) 0 0") simp_all
  have eq: "map (\<lambda>j. if j \<le> 0 then score Wq Wk hs (x ! b) 0 j else NInf) [0..<T]
        = map (\<lambda>j. if j = 0 then Fin a else NInf) [0..<T]"
    using a by (intro map_cong) auto
  show ?thesis
    unfolding attention_wei_row[OF sh b T hq hk h] eq using T by (rule softmax_first)
qed

lemma mask_then_scale_same:
  assumes sh: "shape3 B T C x"
    and hq: "length Wq = h" and hk: "length Wk = h" and h: "0 < h"
    and c: "scale_factor hs = Fin c" "0 < c"
  shows "mask_then_scale_wei Wq Wk hs T x = attention_wei Wq Wk hs T x"
proof -
  have lx: "length x = B" using sh by (simp add: shape3_def)
  have row: "mask_then_scale_wei Wq Wk hs T x ! b ! i = attention_wei Wq Wk hs T x ! b ! i"
    if b: "b < B" and i: "i < T" for b i
  proof -
    have eq: "map (\<lambda>j. fmul (if j \<le> i then raw_score Wq Wk (x ! b) i j else NInf)
                           (scale_factor hs)) [0..<T]
              = map (\<lambda>j. if j \<le> i then score Wq Wk hs (x ! b) i j else NInf) [0..<T]"
      using c by (intro map_cong) (auto simp: score_def)
    show ?thesis
      unfolding mask_then_scale_row[OF sh b i hq hk h] attention_wei_row[OF sh b i hq hk h] eq ..
  qed
  have "mask_then_scale_wei Wq Wk hs T x ! b = attention_wei Wq Wk hs T x ! b" if "b < B" for b
    using that row[OF that]
    by (intro nth_equalityI)
       (simp_all add: length_mask_then_scale_nth[OF sh] length_attention_wei_nth[OF sh])
  then show ?thesis
    using lx by (intro nth_equalityI) (simp_all add: length_mask_then_scale length_attention_wei)
qed

lemma scale_factor_4: "scale_factor 4 = Fin (1 / 2)"
proof -
  have "(4::real) powr (- 0.5) = 1 / 4 powr 0.5" by (rule powr_minus_divide)
  also have "(4::real) powr 0.5 = sqrt 4" using powr_half_sqrt[of 4] by simp
  also have "sqrt 4 = (2::real)" using real_sqrt_abs[of 2] by simp
  finally have p: "(4::real) powr (- 0.5) = 1 / 2" .
  show ?thesis unfolding scale_factor_def of_nat_numeral p by (rule rnd_simps)
qed

section \<open>The causal mask\<close>

text \<open>
  Claim C7.  The causal mask \<^verbatim>\<open>torch.tril(torch.ones(T, T))\<close> is a \<open>T \<times> T\<close> matrix whose
  entry \<open>(i, j)\<close> is 1 if and only if \<open>j \<le> i\<close>, the diagonal included, and 0 if and only
  if \<open>i < j\<close>; versions 2, 3 and 4 all build their weights from this matrix.
\<close>

theorem causal_mask_lower_triangular:
  assumes "i < T" and "j < T"
  shows "shape2 T T (tril (ones T T))
       \<and> (tril (ones T T) ! i ! j = Fin 1 \<longleftrightarrow> j \<le> i)
       \<and> (tril (ones T T) ! i ! j = Fin 0 \<longleftrightarrow> i < j)
       \<and> tril (ones T T) ! i ! i = Fin 1
       \<and> wei2 T = div_bcast (tril (ones T T)) (sum_dim1_keepdim (tril (ones T T)))
       \<and> wei3 T = softmax (masked_fill (zeros T T) (eq_zero (tril (ones T T))) NInf)
       \<and> attention_wei Wq Wk hs T x =
           map softmax
             (map (\<lambda>w. masked_fill w (eq_zero (tril (ones T T))) NInf)
                (scale3 (bmm (nn_linear Wq x) (transpose_last (nn_linear Wk x)))
                   (scale_factor hs)))"
  using assms
  by (simp add: shape2_tril_ones tril_ones_row wei2_def wei3_def attention_wei_def
      attention_scores_def Let_def)

text \<open>The mask for \<open>T = 2\<close>, and one entry above the diagonal.\<close>

theorem causal_mask_lower_triangular_witness:
  "tril (ones 2 2) = [[Fin 1, Fin 0], [Fin 1, Fin 1]]
   \<and> (tril (ones 2 2) ! 0 ! 1 = Fin 1 \<longleftrightarrow> (1::nat) \<le> 0)
   \<and> (tril (ones 2 2) ! 0 ! 1 = Fin 0 \<longleftrightarrow> (0::nat) < 1)"
  using causal_mask_lower_triangular [of 0 2 1]
  by (simp add: tril_def ones_def upt_rec)

section \<open>Uniform weights\<close>




text \<open>
  The weight that row 2 of version 3 gives to a visible position is not \<open>1 / 3\<close>
  either.
\<close>

theorem wei3_entry_is_not_exact_third: "wei3 3 ! 2 ! 0 \<noteq> Fin (1 / 3)"
  using wei3_row[of 2 3] third_inexact by (simp add: upt_rec)

text \<open>
  Claim C4.  For \<open>T \<le> 2 ^ 24\<close>, the softmax of the zero matrix with its future entries
  set to negative infinity is the same matrix as the triangular matrix of ones
  divided by its row sums: in both, entry \<open>(t, s)\<close> is the quotient of 1 by \<open>t + 1\<close> in
  the element type for \<open>s \<le> t\<close>, and 0 for \<open>s > t\<close>.
\<close>

theorem masked_softmax_eq_row_normalised:
  assumes "T \<le> 2 ^ 24"
  shows "wei3 T = wei2 T
   \<and> (\<forall>t<T. \<forall>s<T. wei3 T ! t ! s = (if s \<le> t then fdiv (Fin 1) (Fin (real t + 1)) else Fin 0)
                  \<and> wei2 T ! t ! s = (if s \<le> t then fdiv (Fin 1) (Fin (real t + 1)) else Fin 0))"
  using assms by (simp add: wei3_eq_wei2 wei2_row add.commute)

text \<open>The two matrices for \<open>T = 3\<close>.\<close>

theorem masked_softmax_eq_row_normalised_witness:
  "wei3 3 = wei2 3
   \<and> wei3 3 ! 2 ! 0 = Fin (11184811 / 33554432)
   \<and> wei3 3 ! 0 ! 2 = Fin 0"
  using masked_softmax_eq_row_normalised [of 3]
  by (simp add: rnd_third)

section \<open>Average pooling over the causal prefix\<close>







section \<open>The attention head\<close>

text \<open>
  Two inputs that agree at position 0 and differ at position 1, where the value of
  the second overflows: the weight of position 1 in row 0 is zero, and the product
  of zero and infinity is not-a-number, so that the outputs at position 0 differ.
\<close>

theorem future_overflow_reaches_first_output:
  "take (0 + 1) ([[[Fin 1], [Fin 2]]] ! 0) = take (0 + 1) ([[[Fin 1], [Fin (2 ^ 127)]]] ! 0)
   \<and> attention_out [[Fin 1]] [[Fin 1]] [[Fin 2]] 1 2 [[[Fin 1], [Fin 2]]] ! 0 ! 0
     \<noteq> attention_out [[Fin 1]] [[Fin 1]] [[Fin 2]] 1 2 [[[Fin 1], [Fin (2 ^ 127)]]] ! 0 ! 0"
  using example_out by simp

text \<open>
  Claim C3.  In versions 3 and 4 (the scores of the row being finite) the weight at
  row \<open>t\<close>, column \<open>j\<close> is exactly 0 whenever \<open>j > t\<close>; and for two inputs of the same
  shape that agree on the positions \<open>0, \<dots>, t\<close> of batch element \<open>b\<close> and whose values
  \<open>v\<close> are finite, the outputs \<open>out[b, t]\<close> under the same projection weights are
  identical.
\<close>

theorem causal_mask_hides_future:
  assumes "shape3 B T C x" and "shape3 B T C x'"
    and "shape2 hs C Wq" and "shape2 hs C Wk" and "shape2 hs C Wv" and "0 < hs"
    and "b < B" and "t < T"
    and "\<forall>j\<le>t. is_fin (attention_scores Wq Wk hs x ! b ! t ! j)"
  shows "(\<forall>j<T. t < j \<longrightarrow>
            wei3 T ! t ! j = Fin 0 \<and> attention_wei Wq Wk hs T x ! b ! t ! j = Fin 0)
       \<and> (take (t + 1) (x ! b) = take (t + 1) (x' ! b)
          \<and> list_all (list_all is_fin) (nn_linear Wv x ! b)
          \<and> list_all (list_all is_fin) (nn_linear Wv x' ! b) \<longrightarrow>
            attention_out Wq Wk Wv hs T x ! b ! t = attention_out Wq Wk Wv hs T x' ! b ! t)"
proof -
  have hq: "length Wq = hs" and hk: "length Wk = hs" and hv: "length Wv = hs"
    using assms(3,4,5) by (simp_all add: shape2_def)
  note sh = assms(1) and sh' = assms(2) and b = assms(7) and t = assms(8)
  obtain w3 where w3: "wei3 T ! t = map (\<lambda>j. if j \<le> t then Fin (w3 j) else Fin 0) [0..<T]"
    using wei3_row_unit[OF t] by blast
  obtain w where w: "attention_wei Wq Wk hs T x ! b ! t
                     = map (\<lambda>j. if j \<le> t then Fin (w j) else Fin 0) [0..<T]"
    using attention_wei_unit_row[OF sh b t hq hk assms(6,9)] by blast
  have zero: "wei3 T ! t ! j = Fin 0 \<and> attention_wei Wq Wk hs T x ! b ! t ! j = Fin 0"
    if "j < T" "t < j" for j
    using that by (simp add: w3 w)
  have same: "attention_out Wq Wk Wv hs T x ! b ! t = attention_out Wq Wk Wv hs T x' ! b ! t"
    if eq: "take (Suc t) (x ! b) = take (Suc t) (x' ! b)"
      and fin: "list_all (list_all is_fin) (nn_linear Wv x ! b)"
      and fin': "list_all (list_all is_fin) (nn_linear Wv x' ! b)"
  proof -
    have ag: "x ! b ! s = x' ! b ! s" if "s \<le> t" for s
      using eq that by (rule prefix_agree)
    have lx: "length x = B" "length x' = B" using sh sh' by (simp_all add: shape3_def)
    have lxb: "length (x ! b) = T" "length (x' ! b) = T"
      using shape3_nth[OF sh b] shape3_nth[OF sh' b] by (simp_all add: shape2_def)
    have sc: "score Wq Wk hs (x ! b) t j = score Wq Wk hs (x' ! b) t j" if "j \<le> t" for j
      using ag[of t] ag[OF that] by (simp add: score_def raw_score_def)
    have rows: "map (\<lambda>j. if j \<le> t then score Wq Wk hs (x ! b) t j else NInf) [0..<T]
          = map (\<lambda>j. if j \<le> t then score Wq Wk hs (x' ! b) t j else NInf) [0..<T]"
      using sc by (intro map_cong) auto
    have "attention_wei Wq Wk hs T x' ! b ! t = attention_wei Wq Wk hs T x ! b ! t"
      unfolding attention_wei_row[OF sh b t hq hk assms(6)]
        attention_wei_row[OF sh' b t hq hk assms(6)] rows ..
    then have w': "attention_wei Wq Wk hs T x' ! b ! t
                   = map (\<lambda>j. if j \<le> t then Fin (w j) else Fin 0) [0..<T]"
      using w by simp
    have vf: "is_fin (dot (x ! b ! j) (Wv ! c))" "is_fin (dot (x' ! b ! j) (Wv ! c))"
      if "j < T" "c < length Wv" for j c
      using fin fin' that b lx lxb
      by (simp_all add: list_all_length nn_linear_def)
    have "dot (map (\<lambda>j. if j \<le> t then Fin (w j) else Fin 0) [0..<T])
              (map (\<lambda>j. dot (x ! b ! j) (Wv ! c)) [0..<T])
          = dot (map (\<lambda>j. if j \<le> t then Fin (w j) else Fin 0) [0..<T])
              (map (\<lambda>j. dot (x' ! b ! j) (Wv ! c)) [0..<T])"
      if c: "c < length Wv" for c
    proof -
      have eq: "map (\<lambda>j. if j \<le> t then fmul (Fin (w j)) (dot (x ! b ! j) (Wv ! c)) else Fin 0)
                  [0..<T]
            = map (\<lambda>j. if j \<le> t then fmul (Fin (w j)) (dot (x' ! b ! j) (Wv ! c)) else Fin 0)
                [0..<T]"
        using ag by (intro map_cong) auto
      have d: "dot (map (\<lambda>j. if j \<le> t then Fin (w j) else Fin 0) [0..<T])
                 (map (\<lambda>j. dot (x ! b ! j) (Wv ! c)) [0..<T])
               = fsum (map (\<lambda>j. if j \<le> t then fmul (Fin (w j)) (dot (x ! b ! j) (Wv ! c))
                                 else Fin 0) [0..<T])"
        using vf(1)[OF _ c] by (intro dot_causal) simp
      have d': "dot (map (\<lambda>j. if j \<le> t then Fin (w j) else Fin 0) [0..<T])
                 (map (\<lambda>j. dot (x' ! b ! j) (Wv ! c)) [0..<T])
               = fsum (map (\<lambda>j. if j \<le> t then fmul (Fin (w j)) (dot (x' ! b ! j) (Wv ! c))
                                 else Fin 0) [0..<T])"
        using vf(2)[OF _ c] by (intro dot_causal) simp
      show ?thesis unfolding d d' eq ..
    qed
    then show ?thesis
      unfolding attention_out_row[OF sh b t] attention_out_row[OF sh' b t] w w'
      by (intro map_cong) simp_all
  qed
  from zero same show ?thesis by simp
qed

text \<open>Two inputs of shape \<open>(1, 2, 1)\<close> that differ at position 1 only.\<close>

theorem causal_mask_hides_future_witness:
  "take (0 + 1) ([[[Fin 1], [Fin 2]]] ! 0) = take (0 + 1) ([[[Fin 1], [Fin 4]]] ! 0)
   \<and> attention_out [[Fin 1]] [[Fin 1]] [[Fin 2]] 1 2 [[[Fin 1], [Fin 2]]] ! 0 ! 0
       = attention_out [[Fin 1]] [[Fin 1]] [[Fin 2]] 1 2 [[[Fin 1], [Fin 4]]] ! 0 ! 0
   \<and> attention_out [[Fin 1]] [[Fin 1]] [[Fin 2]] 1 2 [[[Fin 1], [Fin 2]]] ! 0 ! 0 = [Fin 2]
   \<and> attention_wei [[Fin 1]] [[Fin 1]] 1 2 [[[Fin 1], [Fin 2]]] ! 0 ! 0 ! 1 = Fin 0
   \<and> wei3 2 ! 0 ! 1 = Fin 0"
proof -
  have sc: "attention_scores [[Fin 1]] [[Fin 1]] 1 [[[Fin 1], [Fin 2]]]
            = [[[Fin 1, Fin 2], [Fin 2, Fin 4]]]"
    by (simp add: attention_scores_def Let_def nn_linear_def transpose_last_def transpose_m_def
        ncols_def col_def bmm_def matmul_def scale3_def dot_def fsum_def upt_rec
        scale_factor_def rnd_one rnd_simps)
  have r8: "rnd 8 = Fin 8" using rnd_nat[of 8] by simp
  have v: "nn_linear [[Fin 2]] [[[Fin 1], [Fin 2]]] = [[[Fin 2], [Fin 4]]]"
    "nn_linear [[Fin 2]] [[[Fin 1], [Fin 4]]] = [[[Fin 2], [Fin 8]]]"
    by (simp_all add: nn_linear_def dot_def fsum_def rnd_simps r8)
  from causal_mask_hides_future
    [of 1 2 1 "[[[Fin 1], [Fin 2]]]" "[[[Fin 1], [Fin 4]]]" 1
      "[[Fin 1]]" "[[Fin 1]]" "[[Fin 2]]" 0 0]
  show ?thesis
    using sc v example_out(1) by (simp add: shape3_def shape2_def)
qed




text \<open>
  Masking before scaling, on an input of shape \<open>(1, 2, 1)\<close> with \<open>head_size = 4\<close>,
  gives the weights of the head: the order of the cell is not the only one with
  these weights.
\<close>

theorem mask_before_scale_gives_same_weights:
  "mask_then_scale_wei [[Fin 1], [Fin 0], [Fin 0], [Fin 1]] [[Fin 1], [Fin 0], [Fin 0], [Fin 1]]
     4 2 [[[Fin 1], [Fin 2]]]
   = attention_wei [[Fin 1], [Fin 0], [Fin 0], [Fin 1]] [[Fin 1], [Fin 0], [Fin 0], [Fin 1]]
     4 2 [[[Fin 1], [Fin 2]]]"
  by (rule mask_then_scale_same[of 1 2 1 _ _ 4 _ _ "1 / 2"])
     (simp_all add: shape3_def shape2_def scale_factor_4)

text \<open>
  Claim C6.  In version 4 the weights of row \<open>i\<close> of batch element \<open>b\<close> are the softmax
  of the row whose entry \<open>j \<le> i\<close> is the inner product of query \<open>i\<close> and key \<open>j\<close>
  multiplied by \<open>head_size ** - 0.5\<close>, and whose entries \<open>j > i\<close> are negative infinity.
  Masking before scaling gives the same weights whenever the factor is positive and
  finite; scaling after the softmax gives other weights whenever the factor is not 1
  (the scores of the first position being finite).
\<close>

theorem scaling_precedes_masking:
  assumes "shape3 B T C x"
    and "shape2 hs C Wq" and "shape2 hs C Wk" and "0 < hs"
    and "b < B" and "i < T"
  shows "attention_wei Wq Wk hs T x ! b ! i
         = softmax_row
             (map (\<lambda>j. if j \<le> i
                        then fmul (fsum (map2 fmul (nn_linear Wq x ! b ! i) (nn_linear Wk x ! b ! j)))
                                  (scale_factor hs)
                        else NInf) [0..<T])
       \<and> (\<forall>c. scale_factor hs = Fin c \<and> 0 < c \<longrightarrow>
             mask_then_scale_wei Wq Wk hs T x = attention_wei Wq Wk hs T x)
       \<and> (is_fin (fsum (map2 fmul (nn_linear Wq x ! b ! 0) (nn_linear Wk x ! b ! 0)))
          \<and> is_fin (attention_scores Wq Wk hs x ! b ! 0 ! 0)
          \<and> scale_factor hs \<noteq> Fin 1 \<longrightarrow>
             softmax_then_scale_wei Wq Wk hs T x ! b ! 0 ! 0
             \<noteq> attention_wei Wq Wk hs T x ! b ! 0 ! 0)"
proof -
  have hq: "length Wq = hs" and hk: "length Wk = hs"
    using assms(2,3) by (simp_all add: shape2_def)
  note sh = assms(1) and b = assms(5) and i = assms(6)
  have T: "0 < T" using i by simp
  have lx: "length x = B" using sh by (simp add: shape3_def)
  have lxb: "length (x ! b) = T" using shape3_nth[OF sh b] by (simp add: shape2_def)
  have raw: "raw_score Wq Wk (x ! b) i' j
             = fsum (map2 fmul (nn_linear Wq x ! b ! i') (nn_linear Wk x ! b ! j))"
    if "i' < T" "j < T" for i' j
    using that b lx lxb by (simp add: raw_score_def dot_def nn_linear_row)
  have eq: "map (\<lambda>j. if j \<le> i then score Wq Wk hs (x ! b) i j else NInf) [0..<T]
            = map (\<lambda>j. if j \<le> i
                        then fmul (fsum (map2 fmul (nn_linear Wq x ! b ! i) (nn_linear Wk x ! b ! j)))
                                  (scale_factor hs)
                        else NInf) [0..<T]"
    using raw[OF i] by (intro map_cong) (auto simp: score_def)
  have first: "attention_wei Wq Wk hs T x ! b ! i
         = softmax_row
             (map (\<lambda>j. if j \<le> i
                        then fmul (fsum (map2 fmul (nn_linear Wq x ! b ! i) (nn_linear Wk x ! b ! j)))
                                  (scale_factor hs)
                        else NInf) [0..<T])"
    unfolding eq[symmetric] by (rule attention_wei_row[OF sh b i hq hk assms(4)])
  have second: "mask_then_scale_wei Wq Wk hs T x = attention_wei Wq Wk hs T x"
    if "scale_factor hs = Fin c" "0 < c" for c
    using sh hq hk assms(4) that by (rule mask_then_scale_same)
  have third: "softmax_then_scale_wei Wq Wk hs T x ! b ! 0 ! 0
               \<noteq> attention_wei Wq Wk hs T x ! b ! 0 ! 0"
    if rf: "is_fin (fsum (map2 fmul (nn_linear Wq x ! b ! 0) (nn_linear Wk x ! b ! 0)))"
      and sf: "is_fin (attention_scores Wq Wk hs x ! b ! 0 ! 0)"
      and ne: "scale_factor hs \<noteq> Fin 1"
  proof -
    have w: "attention_wei Wq Wk hs T x ! b ! 0 ! 0 = Fin 1"
      using attention_first_row[OF sh b T hq hk assms(4) sf] T by simp
    have "is_fin (raw_score Wq Wk (x ! b) 0 0)" using rf raw[OF T T] by simp
    then obtain a where a: "raw_score Wq Wk (x ! b) 0 0 = Fin a"
      by (cases "raw_score Wq Wk (x ! b) 0 0") simp_all
    have eq0: "map (\<lambda>j. if j \<le> 0 then raw_score Wq Wk (x ! b) 0 j else NInf) [0..<T]
               = map (\<lambda>j. if j = 0 then Fin a else NInf) [0..<T]"
      using a by (intro map_cong) auto
    have "softmax_then_scale_wei Wq Wk hs T x ! b ! 0
          = map (\<lambda>e. fmul e (scale_factor hs)) (map (\<lambda>j. if j = 0 then Fin 1 else Fin 0) [0..<T])"
      unfolding softmax_then_scale_row[OF sh b T hq hk assms(4)] eq0 softmax_first[OF T] ..
    then have "softmax_then_scale_wei Wq Wk hs T x ! b ! 0 ! 0 = fmul (Fin 1) (scale_factor hs)"
      using T by simp
    also have "\<dots> = scale_factor hs"
      by (intro fmul_one_left) (simp add: scale_factor_def is_f32_rnd)
    finally show ?thesis using w ne by simp
  qed
  from first second third show ?thesis by blast
qed

text \<open>The raw and the scaled scores of an input of shape \<open>(1, 2, 1)\<close> with
  \<open>head_size = 4\<close>, and the two orders on it.\<close>

theorem scaling_precedes_masking_witness:
  "bmm (nn_linear [[Fin 1], [Fin 0], [Fin 0], [Fin 1]] [[[Fin 1], [Fin 2]]])
       (transpose_last (nn_linear [[Fin 1], [Fin 0], [Fin 0], [Fin 1]] [[[Fin 1], [Fin 2]]]))
     = [[[Fin 2, Fin 4], [Fin 4, Fin 8]]]
   \<and> attention_scores [[Fin 1], [Fin 0], [Fin 0], [Fin 1]] [[Fin 1], [Fin 0], [Fin 0], [Fin 1]]
        4 [[[Fin 1], [Fin 2]]]
     = [[[Fin 1, Fin 2], [Fin 2, Fin 4]]]
   \<and> softmax_then_scale_wei [[Fin 1], [Fin 0], [Fin 0], [Fin 1]]
        [[Fin 1], [Fin 0], [Fin 0], [Fin 1]] 4 2 [[[Fin 1], [Fin 2]]] ! 0 ! 0 ! 0
     \<noteq> attention_wei [[Fin 1], [Fin 0], [Fin 0], [Fin 1]]
        [[Fin 1], [Fin 0], [Fin 0], [Fin 1]] 4 2 [[[Fin 1], [Fin 2]]] ! 0 ! 0 ! 0"
proof -
  let ?W = "[[Fin 1], [Fin 0], [Fin 0], [Fin 1]]" and ?x = "[[[Fin 1], [Fin 2]]]"
  have r8: "rnd 8 = Fin 8" using rnd_nat[of 8] by simp
  have q: "nn_linear ?W ?x = [[[Fin 1, Fin 0, Fin 0, Fin 1], [Fin 2, Fin 0, Fin 0, Fin 2]]]"
    by (simp add: nn_linear_def dot_def fsum_def rnd_one rnd_zero rnd_simps)
  have raw: "bmm (nn_linear ?W ?x) (transpose_last (nn_linear ?W ?x))
             = [[[Fin 2, Fin 4], [Fin 4, Fin 8]]]"
    unfolding q
    by (simp add: transpose_last_def transpose_m_def ncols_def col_def bmm_def matmul_def
        dot_def fsum_def upt_rec rnd_one rnd_zero rnd_simps r8)
  have sc: "attention_scores ?W ?W 4 ?x = [[[Fin 1, Fin 2], [Fin 2, Fin 4]]]"
    unfolding attention_scores_def Let_def raw
    by (simp add: scale3_def scale_factor_4 rnd_one rnd_simps)
  have rf: "is_fin (fsum (map2 fmul (nn_linear ?W ?x ! 0 ! 0) (nn_linear ?W ?x ! 0 ! 0)))"
    unfolding q by (simp add: fsum_def rnd_one rnd_zero rnd_simps)
  have sf: "is_fin (attention_scores ?W ?W 4 ?x ! 0 ! 0 ! 0)"
    unfolding sc by simp
  have ne: "scale_factor 4 \<noteq> Fin 1" by (simp add: scale_factor_4)
  have hyp: "shape3 1 2 1 ?x" "shape2 4 1 ?W" "(0::nat) < 4" "(0::nat) < 1" "(0::nat) < 2"
    by (simp_all add: shape3_def shape2_def)
  from scaling_precedes_masking [OF hyp(1,2,2,3,4,5)] rf sf ne
  have "softmax_then_scale_wei ?W ?W 4 2 ?x ! 0 ! 0 ! 0 \<noteq> attention_wei ?W ?W 4 2 ?x ! 0 ! 0 ! 0"
    by blast
  then show ?thesis using raw sc by simp
qed

section \<open>The first time step\<close>

text \<open>
  On an input whose value at position 1 overflows, the output of the head at
  position 0 is not-a-number and not the value \<open>v[b, 0]\<close>.
\<close>

theorem first_output_is_not_first_value:
  "attention_out [[Fin 1]] [[Fin 1]] [[Fin 2]] 1 2 [[[Fin 1], [Fin (2 ^ 127)]]] ! 0 ! 0
   \<noteq> nn_linear [[Fin 2]] [[[Fin 1], [Fin (2 ^ 127)]]] ! 0 ! 0"
  using example_out by simp

text \<open>
  Claim C10.  For \<open>0 < T \<le> 2 ^ 24\<close> and every batch index \<open>b\<close>: on a finite input,
  \<open>xbow1[b, 0]\<close>, \<open>xbow2[b, 0]\<close> and \<open>xbow3[b, 0]\<close> are \<open>x[b, 0]\<close>; in version 4, the
  score of position 0 to itself being finite, the first row of the weights is the
  one-hot vector of position 0, and \<open>out[b, 0] = v[b, 0]\<close> when the values \<open>v\<close> of the
  batch element are finite.
\<close>

theorem first_position_is_identity:
  assumes "shape3 B T C x"
    and "shape2 hs C Wq" and "shape2 hs C Wk" and "shape2 hs C Wv" and "0 < hs"
    and "b < B" and "0 < T" and "T \<le> 2 ^ 24"
  shows "(list_all (list_all finite_f32) (x ! b) \<longrightarrow>
            xbow1 B T C x ! b ! 0 = x ! b ! 0
          \<and> xbow2 T x ! b ! 0 = x ! b ! 0
          \<and> xbow3 T x ! b ! 0 = x ! b ! 0)
       \<and> (is_fin (attention_scores Wq Wk hs x ! b ! 0 ! 0) \<longrightarrow>
            attention_wei Wq Wk hs T x ! b ! 0 = map (\<lambda>j. if j = 0 then Fin 1 else Fin 0) [0..<T]
          \<and> (list_all (list_all is_fin) (nn_linear Wv x ! b) \<longrightarrow>
               attention_out Wq Wk Wv hs T x ! b ! 0 = nn_linear Wv x ! b ! 0))"
proof -
  have hq: "length Wq = hs" and hk: "length Wk = hs"
    using assms(2,3) by (simp_all add: shape2_def)
  note sh = assms(1) and b = assms(6) and T = assms(7)
  have lx: "length x = B" using sh by (simp add: shape3_def)
  have lxb: "length (x ! b) = T" using shape3_nth[OF sh b] by (simp add: shape2_def)
  have att: "attention_out Wq Wk Wv hs T x ! b ! 0 = nn_linear Wv x ! b ! 0"
    if fin: "is_fin (attention_scores Wq Wk hs x ! b ! 0 ! 0)"
      and vfin: "list_all (list_all is_fin) (nn_linear Wv x ! b)"
  proof -
    have w: "attention_wei Wq Wk hs T x ! b ! 0 = map (\<lambda>j. if j = 0 then Fin 1 else Fin 0) [0..<T]"
      using sh b T hq hk assms(5) fin by (rule attention_first_row)
    have vf: "is_fin (dot (x ! b ! j) (Wv ! c))" if "j < T" "c < length Wv" for j c
      using vfin that b lx lxb by (simp add: list_all_length nn_linear_def)
    have "dot (map (\<lambda>j. if j = 0 then Fin 1 else Fin 0) [0..<T])
              (map (\<lambda>j. dot (x ! b ! j) (Wv ! c)) [0..<T]) = dot (x ! b ! 0) (Wv ! c)"
      if "c < length Wv" for c
      using T vf[OF _ that] by (intro dot_onehot) (simp_all add: is_f32_dot)
    then have "attention_out Wq Wk Wv hs T x ! b ! 0
               = map (\<lambda>c. dot (x ! b ! 0) (Wv ! c)) [0..<length Wv]"
      unfolding attention_out_row[OF sh b T] w by (intro map_cong) simp_all
    also have "\<dots> = map (dot (x ! b ! 0)) Wv" by (rule map_over_indices)
    also have "\<dots> = nn_linear Wv x ! b ! 0"
      using b T lx lxb by (simp add: nn_linear_row)
    finally show ?thesis .
  qed
  show ?thesis
    using xbow_first[OF sh b T assms(8)] attention_first_row[OF sh b T hq hk assms(5)] att
    by simp
qed

text \<open>An input of shape \<open>(1, 2, 1)\<close>.\<close>

theorem first_position_is_identity_witness:
  "xbow1 1 2 1 [[[Fin 5], [Fin 3]]] ! 0 ! 0 = [Fin 5]
   \<and> xbow2 2 [[[Fin 5], [Fin 3]]] ! 0 ! 0 = [Fin 5]
   \<and> xbow3 2 [[[Fin 5], [Fin 3]]] ! 0 ! 0 = [Fin 5]
   \<and> attention_wei [[Fin 1]] [[Fin 1]] 1 2 [[[Fin 5], [Fin 3]]] ! 0 ! 0 = [Fin 1, Fin 0]
   \<and> attention_out [[Fin 1]] [[Fin 1]] [[Fin 2]] 1 2 [[[Fin 5], [Fin 3]]] ! 0 ! 0 = [Fin 10]"
proof -
  have r: "rnd 5 = Fin 5" "rnd 3 = Fin 3" "rnd 10 = Fin 10" "rnd 15 = Fin 15" "rnd 6 = Fin 6"
    "rnd 9 = Fin 9" "rnd 25 = Fin 25"
    using rnd_nat[of 5] rnd_nat[of 3] rnd_nat[of 10] rnd_nat[of 15] rnd_nat[of 6] rnd_nat[of 9]
      rnd_nat[of 25]
    by simp_all
  have v: "nn_linear [[Fin 2]] [[[Fin 5], [Fin 3]]] = [[[Fin 10], [Fin 6]]]"
    by (simp add: nn_linear_def dot_def fsum_def r)
  have sc: "attention_scores [[Fin 1]] [[Fin 1]] 1 [[[Fin 5], [Fin 3]]]
            = [[[Fin 25, Fin 15], [Fin 15, Fin 9]]]"
    by (simp add: attention_scores_def Let_def nn_linear_def transpose_last_def transpose_m_def
        ncols_def col_def bmm_def matmul_def scale3_def dot_def fsum_def upt_rec
        scale_factor_def rnd_one r)
  from first_position_is_identity
    [of 1 2 1 "[[[Fin 5], [Fin 3]]]" 1 "[[Fin 1]]" "[[Fin 1]]" "[[Fin 2]]" 0]
  show ?thesis
    using sc v by (simp add: shape3_def shape2_def finite_f32_def r upt_rec)
qed

end
